theory Spec2Isabelle
  imports Complex_Main
begin

section \<open>The embedding, indexing and retrieval pipeline of the document service\<close>

text \<open>
  This theory embeds \<^verbatim>\<open>backend/vector_database.py\<close> and the function
  \<^verbatim>\<open>chunk_text\<close> of \<^verbatim>\<open>backend/document_inject.py\<close>.

  The functions of the pipeline talk to two remote services (the vector store and the
  embedding provider), sleep, and draw random identifiers.  Each such effect is a
  \<open>call\<close>; a run appends its calls, in order, to a \<open>trace\<close>.  What a call answers is
  not in the hands of the program: it is given by an environment \<open>env\<close>, a record of
  functions from the trace up to and including the call to the answer.  An answer is
  either a value or an exception (\<open>Inl\<close>).  A theorem that holds for every \<open>env\<close> holds
  whatever the services answer.  Logging has no effect on results and is left out.
\<close>

subsection \<open>Data\<close>

text \<open>Exceptions; every one of them is an instance of Python's \<^verbatim>\<open>Exception\<close>.
  \<open>VoyageError\<close> carries the text that \<^verbatim>\<open>str(e)\<close> gives.\<close>

datatype error =
    VoyageError string
  | RuntimeError string
  | TypeError string
  | KeyError string
  | IndexError string
  | OtherException string

type_synonym embedding = "real list"

datatype payload_value = PStr string | PInt int

text \<open>\<^verbatim>\<open>PayloadSchemaType\<close>, \<^verbatim>\<open>Distance\<close> and the filter classes of the store's client.\<close>

datatype schema_type =
  Keyword | Integer | Float | Geo | Text | Bool | Datetime | Uuid

datatype distance = Cosine | Euclid | Dot | Manhattan

datatype match_value = MatchValue payload_value

datatype field_condition = FieldCondition string match_value

datatype filter_cond = Filter "field_condition list"

text \<open>\<^verbatim>\<open>PointStruct(id, vector, payload)\<close>.\<close>

record point =
  point_id :: string
  vector :: embedding
  payload :: "string \<rightharpoonup> payload_value"

text \<open>What \<^verbatim>\<open>get_collection\<close> answers, as far as the program reads it:
  \<^verbatim>\<open>info.payload_schema\<close> (field to data type) and \<^verbatim>\<open>info.points_count\<close>
  (an optional integer in the client).\<close>

record collection_info =
  payload_schema :: "string \<rightharpoonup> schema_type"
  points_count :: "int option"

text \<open>A point of a query answer: \<^verbatim>\<open>p.payload\<close> and \<^verbatim>\<open>p.score\<close>.\<close>

record scored_point =
  sp_payload :: "string \<rightharpoonup> payload_value"
  sp_score :: real

datatype input_type = Document | Query

datatype call =
    GetCollections
  | CreateCollection string nat distance
  | GetCollection string
  | CreatePayloadIndex string string schema_type
  | Upsert string "point list"
  | QueryPoints string embedding int bool bool
  | Delete string filter_cond
  | ContextualizedEmbed string "string list list" input_type
  | Sleep nat
  | Uuid4

type_synonym trace = "call list"

text \<open>The environment.  Each function receives the trace whose last element is the call
  being answered.  \<open>embed_r\<close> answers with \<^verbatim>\<open>response.results\<close>, one list of
  embeddings per input group.\<close>

record env =
  get_collections_r :: "trace \<Rightarrow> error + string list"
  create_collection_r :: "trace \<Rightarrow> error + unit"
  get_collection_r :: "trace \<Rightarrow> error + collection_info"
  create_payload_index_r :: "trace \<Rightarrow> error + unit"
  upsert_r :: "trace \<Rightarrow> error + unit"
  query_points_r :: "trace \<Rightarrow> error + scored_point list"
  delete_r :: "trace \<Rightarrow> error + unit"
  embed_r :: "trace \<Rightarrow> error + embedding list list"
  uuid4_r :: "trace \<Rightarrow> string"

subsection \<open>Constants\<close>

definition SAFE_BATCH_SIZE :: nat where "SAFE_BATCH_SIZE = 8"
definition BASE_DELAY :: nat where "BASE_DELAY = 20"
definition MAX_RETRIES :: nat where "MAX_RETRIES = 10"
definition ESTIMATED_BYTES_PER_CHUNK :: int where "ESTIMATED_BYTES_PER_CHUNK = 1024 * 4 + 1000"
definition USER_STORAGE_LIMIT_MB :: int where "USER_STORAGE_LIMIT_MB = 500"

subsection \<open>The calls\<close>

definition qdrant_get_collections :: "env \<Rightarrow> trace \<Rightarrow> (error + string list) \<times> trace" where
  "qdrant_get_collections env t =
     (let t' = t @ [GetCollections] in (get_collections_r env t', t'))"

definition qdrant_create_collection ::
  "env \<Rightarrow> string \<Rightarrow> nat \<Rightarrow> distance \<Rightarrow> trace \<Rightarrow> (error + unit) \<times> trace" where
  "qdrant_create_collection env cn vsize metric t =
     (let t' = t @ [CreateCollection cn vsize metric] in (create_collection_r env t', t'))"

definition qdrant_get_collection ::
  "env \<Rightarrow> string \<Rightarrow> trace \<Rightarrow> (error + collection_info) \<times> trace" where
  "qdrant_get_collection env cn t =
     (let t' = t @ [GetCollection cn] in (get_collection_r env t', t'))"

definition qdrant_create_payload_index ::
  "env \<Rightarrow> string \<Rightarrow> string \<Rightarrow> schema_type \<Rightarrow> trace \<Rightarrow> (error + unit) \<times> trace" where
  "qdrant_create_payload_index env cn field schema t =
     (let t' = t @ [CreatePayloadIndex cn field schema] in (create_payload_index_r env t', t'))"

definition qdrant_upsert ::
  "env \<Rightarrow> string \<Rightarrow> point list \<Rightarrow> trace \<Rightarrow> (error + unit) \<times> trace" where
  "qdrant_upsert env cn points t =
     (let t' = t @ [Upsert cn points] in (upsert_r env t', t'))"

definition qdrant_query_points ::
  "env \<Rightarrow> string \<Rightarrow> embedding \<Rightarrow> int \<Rightarrow> bool \<Rightarrow> bool \<Rightarrow> trace
    \<Rightarrow> (error + scored_point list) \<times> trace" where
  "qdrant_query_points env cn qvec top_k with_payload with_vectors t =
     (let t' = t @ [QueryPoints cn qvec top_k with_payload with_vectors]
      in (query_points_r env t', t'))"

definition qdrant_delete ::
  "env \<Rightarrow> string \<Rightarrow> filter_cond \<Rightarrow> trace \<Rightarrow> (error + unit) \<times> trace" where
  "qdrant_delete env cn selector t =
     (let t' = t @ [Delete cn selector] in (delete_r env t', t'))"

definition contextualized_embed ::
  "env \<Rightarrow> string \<Rightarrow> string list list \<Rightarrow> input_type \<Rightarrow> trace
    \<Rightarrow> (error + embedding list list) \<times> trace" where
  "contextualized_embed env model inputs ity t =
     (let t' = t @ [ContextualizedEmbed model inputs ity] in (embed_r env t', t'))"

definition sleep :: "nat \<Rightarrow> trace \<Rightarrow> trace" where
  "sleep seconds t = t @ [Sleep seconds]"

definition uuid4 :: "env \<Rightarrow> trace \<Rightarrow> string \<times> trace" where
  "uuid4 env t = (let t' = t @ [Uuid4] in (uuid4_r env t', t'))"

subsection \<open>\<^verbatim>\<open>ensure_payload_indexes\<close>\<close>

definition required :: "(string \<times> schema_type) list" where
  "required = [(''source'', Keyword)]"

text \<open>The polling loop \<^verbatim>\<open>for attempt in range(10): ... else: raise RuntimeError\<close>.
  The numeric argument is the number of iterations still to run; at \<open>0\<close> the loop has
  ended without \<^verbatim>\<open>break\<close> and its \<^verbatim>\<open>else\<close> branch raises.  A successful loop
  hands back the last \<^verbatim>\<open>existing\<close> dictionary.\<close>

fun poll_index ::
  "env \<Rightarrow> string \<Rightarrow> string \<Rightarrow> schema_type \<Rightarrow> nat \<Rightarrow> trace
    \<Rightarrow> (error + (string \<rightharpoonup> schema_type)) \<times> trace" where
  "poll_index env cn field schema 0 t =
     (Inl (RuntimeError (''Failed to confirm index for '' @ field @ '' after 10 attempts'')), t)"
| "poll_index env cn field schema (Suc n) t =
     (case qdrant_get_collection env cn (sleep 3 t) of
        (Inl e, t2) \<Rightarrow> (Inl e, t2)
      | (Inr info, t2) \<Rightarrow>
          (let existing = payload_schema info in
           if existing field = Some schema then (Inr existing, t2)
           else poll_index env cn field schema n t2))"

text \<open>The loop \<^verbatim>\<open>for field, schema in required.items()\<close>.\<close>

fun ensure_fields ::
  "env \<Rightarrow> string \<Rightarrow> (string \<times> schema_type) list \<Rightarrow> (string \<rightharpoonup> schema_type) \<Rightarrow> trace
    \<Rightarrow> (error + unit) \<times> trace" where
  "ensure_fields env cn [] existing t = (Inr (), t)"
| "ensure_fields env cn ((field, schema) # rest) existing t =
     (if existing field \<noteq> Some schema then
        (case qdrant_create_payload_index env cn field schema t of
           (Inl e, t1) \<Rightarrow> (Inl e, t1)
         | (Inr _, t1) \<Rightarrow>
             (case poll_index env cn field schema 10 t1 of
                (Inl e, t2) \<Rightarrow> (Inl e, t2)
              | (Inr existing', t2) \<Rightarrow> ensure_fields env cn rest existing' t2))
      else ensure_fields env cn rest existing t)"

text \<open>The \<^verbatim>\<open>except Exception\<close> handler logs and re-raises, so every error comes out as
  it is.\<close>

definition ensure_payload_indexes :: "env \<Rightarrow> string \<Rightarrow> trace \<Rightarrow> (error + unit) \<times> trace" where
  "ensure_payload_indexes env cn t =
     (case qdrant_get_collection env cn t of
        (Inl e, t1) \<Rightarrow> (Inl e, t1)
      | (Inr info, t1) \<Rightarrow> ensure_fields env cn required (payload_schema info) t1)"


subsection \<open>\<^verbatim>\<open>embed_batch_with_retry\<close>\<close>

text \<open>Strings are lists of \<open>char\<close>, read as code points below 256.  \<open>py_lower\<close> is
  \<^verbatim>\<open>str.lower\<close> on that range and \<open>py_in\<close> is the substring test \<^verbatim>\<open>needle in s\<close>.\<close>

definition py_lower_char :: "char \<Rightarrow> char" where
  "py_lower_char c =
     (let n = (of_char c :: nat)
      in if (65 \<le> n \<and> n \<le> 90) \<or> (192 \<le> n \<and> n \<le> 222 \<and> n \<noteq> 215)
         then char_of (n + 32) else c)"

definition py_lower :: "string \<Rightarrow> string" where
  "py_lower s = map py_lower_char s"

fun py_in :: "string \<Rightarrow> string \<Rightarrow> bool" where
  "py_in needle [] = (needle = [])"
| "py_in needle (c # cs) = (take (length needle) (c # cs) = needle \<or> py_in needle cs)"

definition is_rate_limit :: "string \<Rightarrow> bool" where
  "is_rate_limit str_e =
     (let msg = py_lower str_e
      in py_in ''rate limit'' msg \<or> py_in ''rpm'' msg \<or> py_in ''tpm'' msg)"

text \<open>How one iteration of a loop body ends.\<close>

datatype 'a flow = Return 'a | Raise error | Continue

text \<open>The two \<^verbatim>\<open>except\<close> clauses of the loop body, for the exception \<open>e\<close> raised in
  iteration \<open>attempt\<close>.\<close>

definition on_embed_error :: "error \<Rightarrow> nat \<Rightarrow> trace \<Rightarrow> embedding list flow \<times> trace" where
  "on_embed_error e attempt t =
     (case e of
        VoyageError str_e \<Rightarrow>
          if is_rate_limit str_e
          then (Continue, sleep (BASE_DELAY + attempt * 10) t)
          else (Raise e, t)
      | _ \<Rightarrow>
          if attempt < MAX_RETRIES - 1
          then (Continue, sleep (10 * 2 ^ attempt) t)
          else (Raise e, t))"

text \<open>The \<^verbatim>\<open>try\<close> block: the request and \<^verbatim>\<open>response.results[0].embeddings\<close>, which
  raises \<^verbatim>\<open>IndexError\<close> on an empty result list.\<close>

definition embed_attempt ::
  "env \<Rightarrow> string list \<Rightarrow> nat \<Rightarrow> trace \<Rightarrow> embedding list flow \<times> trace" where
  "embed_attempt env batch attempt t =
     (case contextualized_embed env ''voyage-context-3'' [batch] Document t of
        (Inl e, t1) \<Rightarrow> on_embed_error e attempt t1
      | (Inr [], t1) \<Rightarrow> on_embed_error (IndexError ''list index out of range'') attempt t1
      | (Inr (r0 # _), t1) \<Rightarrow> (Return r0, t1))"

text \<open>\<^verbatim>\<open>for attempt in range(MAX_RETRIES)\<close>.  When the loop ends the function body ends
  with it, and Python returns \<^verbatim>\<open>None\<close>: the value \<open>Inr None\<close>.\<close>

function embed_retry_loop ::
  "env \<Rightarrow> string list \<Rightarrow> nat \<Rightarrow> trace \<Rightarrow> (error + embedding list option) \<times> trace" where
  "embed_retry_loop env batch attempt t =
     (if attempt < MAX_RETRIES then
        (case embed_attempt env batch attempt t of
           (Return embeddings, t1) \<Rightarrow> (Inr (Some embeddings), t1)
         | (Raise e, t1) \<Rightarrow> (Inl e, t1)
         | (Continue, t1) \<Rightarrow> embed_retry_loop env batch (attempt + 1) t1)
      else (Inr None, t))"
  by pat_completeness auto
termination
  by (relation "measure (\<lambda>(env, batch, attempt, t). MAX_RETRIES - attempt)") auto

declare embed_retry_loop.simps [simp del]

definition embed_batch_with_retry ::
  "env \<Rightarrow> string list \<Rightarrow> trace \<Rightarrow> (error + embedding list option) \<times> trace" where
  "embed_batch_with_retry env batch t = embed_retry_loop env batch 0 t"

subsection \<open>\<^verbatim>\<open>embed_and_store\<close>\<close>

text \<open>The list comprehension that builds the points of a batch: one \<^verbatim>\<open>uuid4()\<close> per
  pair of \<^verbatim>\<open>zip(embeddings, batch)\<close>, \<open>j\<close> the index \<^verbatim>\<open>enumerate\<close> gives.\<close>

fun make_points ::
  "env \<Rightarrow> string \<Rightarrow> nat \<Rightarrow> nat \<Rightarrow> (embedding \<times> string) list \<Rightarrow> trace \<Rightarrow> point list \<times> trace" where
  "make_points env source i j [] t = ([], t)"
| "make_points env source i j ((emb, chunk) # rest) t =
     (case uuid4 env t of
        (new_id, t1) \<Rightarrow>
          (case make_points env source i (Suc j) rest t1 of
             (points, t2) \<Rightarrow>
               (\<lparr>point_id = new_id, vector = emb,
                 payload = [''text'' \<mapsto> PStr chunk, ''source'' \<mapsto> PStr source,
                            ''chunk_index'' \<mapsto> PInt (int (i + j))]\<rparr> # points, t2)))"

text \<open>\<^verbatim>\<open>for i in range(0, len(chunks), SAFE_BATCH_SIZE)\<close>.  \<^verbatim>\<open>zip\<close> of the value
  \<^verbatim>\<open>None\<close> raises \<^verbatim>\<open>TypeError\<close>.\<close>

function store_batches ::
  "env \<Rightarrow> string list \<Rightarrow> string \<Rightarrow> string \<Rightarrow> nat \<Rightarrow> nat \<Rightarrow> trace \<Rightarrow> (error + nat) \<times> trace" where
  "store_batches env chunks source cn i stored t =
     (if i < length chunks then
        (let batch = take SAFE_BATCH_SIZE (drop i chunks) in
         case embed_batch_with_retry env batch t of
           (Inl e, t1) \<Rightarrow> (Inl e, t1)
         | (Inr None, t1) \<Rightarrow> (Inl (TypeError ''zip argument #1 must support iteration''), t1)
         | (Inr (Some embeddings), t1) \<Rightarrow>
             (case make_points env source i 0 (zip embeddings batch) t1 of
                (points, t2) \<Rightarrow>
                  (case qdrant_upsert env cn points t2 of
                     (Inl e, t3) \<Rightarrow> (Inl e, t3)
                   | (Inr _, t3) \<Rightarrow>
                       store_batches env chunks source cn (i + SAFE_BATCH_SIZE)
                         (stored + length batch)
                         (if i + SAFE_BATCH_SIZE < length chunks then sleep BASE_DELAY t3
                          else t3))))
      else (Inr stored, t))"
  by pat_completeness auto
termination
  by (relation "measure (\<lambda>(env, chunks, source, cn, i, stored, t). length chunks - i)")
    (auto simp: SAFE_BATCH_SIZE_def)

declare store_batches.simps [simp del]

definition embed_and_store ::
  "env \<Rightarrow> string list \<Rightarrow> string \<Rightarrow> string \<Rightarrow> trace \<Rightarrow> (error + nat) \<times> trace" where
  "embed_and_store env chunks source cn t =
     (case qdrant_get_collections env t of
        (Inl e, t1) \<Rightarrow> (Inl e, t1)
      | (Inr collection_names, t1) \<Rightarrow>
          (case (if cn \<notin> set collection_names
                 then qdrant_create_collection env cn 1024 Cosine t1
                 else (Inr (), t1)) of
             (Inl e, t2) \<Rightarrow> (Inl e, t2)
           | (Inr _, t2) \<Rightarrow>
               (case ensure_payload_indexes env cn t2 of
                  (Inl e, t3) \<Rightarrow> (Inl e, t3)
                | (Inr _, t3) \<Rightarrow>
                    if chunks = [] then (Inr 0, t3)
                    else store_batches env chunks source cn 0 0 t3)))"

subsection \<open>\<^verbatim>\<open>search_relevant_chunks\<close>\<close>

text \<open>A result dictionary.\<close>

record hit =
  hit_text :: payload_value
  hit_source :: payload_value
  hit_chunk_index :: payload_value
  hit_score :: real

text \<open>\<^verbatim>\<open>p.payload["text"]\<close> and its siblings raise \<^verbatim>\<open>KeyError\<close> on a missing key.\<close>

definition hit_of :: "scored_point \<Rightarrow> error + hit" where
  "hit_of p =
     (case sp_payload p ''text'' of
        None \<Rightarrow> Inl (KeyError ''text'')
      | Some tx \<Rightarrow>
          (case sp_payload p ''source'' of
             None \<Rightarrow> Inl (KeyError ''source'')
           | Some src \<Rightarrow>
               (case sp_payload p ''chunk_index'' of
                  None \<Rightarrow> Inl (KeyError ''chunk_index'')
                | Some ci \<Rightarrow>
                    Inr \<lparr>hit_text = tx, hit_source = src, hit_chunk_index = ci,
                         hit_score = sp_score p\<rparr>)))"

fun hits_of :: "scored_point list \<Rightarrow> error + hit list" where
  "hits_of [] = Inr []"
| "hits_of (p # ps) =
     (case hit_of p of
        Inl e \<Rightarrow> Inl e
      | Inr h \<Rightarrow> (case hits_of ps of Inl e \<Rightarrow> Inl e | Inr hs \<Rightarrow> Inr (h # hs)))"

text \<open>\<^verbatim>\<open>resp.results[0].embeddings[0]\<close>.\<close>

definition first_vector :: "embedding list list \<Rightarrow> error + embedding" where
  "first_vector results =
     (case results of
        [] \<Rightarrow> Inl (IndexError ''list index out of range'')
      | r0 # _ \<Rightarrow>
          (case r0 of
             [] \<Rightarrow> Inl (IndexError ''list index out of range'')
           | v # _ \<Rightarrow> Inr v))"

definition search_relevant_chunks ::
  "env \<Rightarrow> string \<Rightarrow> string \<Rightarrow> int \<Rightarrow> trace \<Rightarrow> (error + hit list) \<times> trace" where
  "search_relevant_chunks env question cn top_k t =
     (case qdrant_get_collections env t of
        (Inl e, t1) \<Rightarrow> (Inl e, t1)
      | (Inr collections, t1) \<Rightarrow>
          if cn \<notin> set collections then (Inr [], t1)
          else
            (case ensure_payload_indexes env cn t1 of
               (Inl e, t2) \<Rightarrow> (Inl e, t2)
             | (Inr _, t2) \<Rightarrow>
                 (case contextualized_embed env ''voyage-context-3'' [[question]] Query t2 of
                    (Inl e, t3) \<Rightarrow> (Inr [], t3)
                  | (Inr results, t3) \<Rightarrow>
                      (case first_vector results of
                         Inl e \<Rightarrow> (Inr [], t3)
                       | Inr v \<Rightarrow>
                           (case qdrant_query_points env cn v top_k True False t3 of
                              (Inl e, t4) \<Rightarrow> (Inr [], t4)
                            | (Inr pts, t4) \<Rightarrow>
                                (case hits_of pts of
                                   Inl e \<Rightarrow> (Inr [], t4)
                                 | Inr hs \<Rightarrow> (Inr hs, t4)))))))"

subsection \<open>\<^verbatim>\<open>delete_user_document\<close>\<close>

definition delete_user_document ::
  "env \<Rightarrow> string \<Rightarrow> string \<Rightarrow> trace \<Rightarrow> (error + unit) \<times> trace" where
  "delete_user_document env cn filename t =
     (case qdrant_get_collections env t of
        (Inl e, t1) \<Rightarrow> (Inl e, t1)
      | (Inr collections, t1) \<Rightarrow>
          if cn \<notin> set collections then (Inr (), t1)
          else
            (case ensure_payload_indexes env cn t1 of
               (Inl e, t2) \<Rightarrow> (Inl e, t2)
             | (Inr _, t2) \<Rightarrow>
                 (let filter_cond = Filter [FieldCondition ''source'' (MatchValue (PStr filename))]
                  in case qdrant_delete env cn filter_cond t2 of
                       (Inl e, t3) \<Rightarrow> (Inl e, t3)
                     | (Inr _, t3) \<Rightarrow> (Inr (), t3))))"

subsection \<open>\<^verbatim>\<open>get_collection_stats\<close>\<close>

record stats =
  total_chunks :: int
  used_mb :: real
  available_mb :: real
  limit_mb :: int

text \<open>\<^verbatim>\<open>round(x, 2)\<close>, with Python's floats read as the real numbers they stand for:
  the nearest multiple of one hundredth, a tie going to the even one.\<close>

definition py_round2 :: "real \<Rightarrow> real" where
  "py_round2 x =
     (let y = x * 100; f = \<lfloor>y\<rfloor>; d = y - of_int f
      in (if d < 1 / 2 then of_int f
          else if 1 / 2 < d then of_int (f + 1)
          else if even f then of_int f else of_int (f + 1)) / 100)"

definition zeroed_stats :: stats where
  "zeroed_stats =
     \<lparr>total_chunks = 0, used_mb = 0, available_mb = of_int USER_STORAGE_LIMIT_MB,
      limit_mb = USER_STORAGE_LIMIT_MB\<rparr>"

text \<open>The whole body is one \<^verbatim>\<open>try\<close> block.  A \<^verbatim>\<open>points_count\<close> of \<^verbatim>\<open>None\<close> makes
  the multiplication raise \<^verbatim>\<open>TypeError\<close>, which the handler catches like any other.\<close>

definition get_collection_stats :: "env \<Rightarrow> string \<Rightarrow> trace \<Rightarrow> (error + stats) \<times> trace" where
  "get_collection_stats env cn t =
     (case qdrant_get_collection env cn t of
        (Inl e, t1) \<Rightarrow> (Inr zeroed_stats, t1)
      | (Inr info, t1) \<Rightarrow>
          (case points_count info of
             None \<Rightarrow> (Inr zeroed_stats, t1)
           | Some total_points \<Rightarrow>
               (let used = py_round2 (of_int (total_points * ESTIMATED_BYTES_PER_CHUNK) / (1024 * 1024));
                    available = max 0 (py_round2 (of_int USER_STORAGE_LIMIT_MB - used))
                in (Inr \<lparr>total_chunks = total_points, used_mb = used, available_mb = available,
                         limit_mb = USER_STORAGE_LIMIT_MB\<rparr>, t1))))"

subsection \<open>\<^verbatim>\<open>chunk_text\<close>\<close>

text \<open>\<^verbatim>\<open>str.isspace\<close> on one character and \<^verbatim>\<open>str.strip()\<close>.\<close>

definition py_isspace :: "char \<Rightarrow> bool" where
  "py_isspace c = ((of_char c :: nat) \<in> {9, 10, 11, 12, 13, 28, 29, 30, 31, 32, 133, 160})"

definition py_strip :: "string \<Rightarrow> string" where
  "py_strip s = rev (dropWhile py_isspace (rev (dropWhile py_isspace s)))"

text \<open>The splitter comes from a library outside the repository; \<open>split_text\<close> stands
  for \<^verbatim>\<open>RecursiveCharacterTextSplitter(chunk_size=1500, chunk_overlap=200,
  length_function=len).split_text\<close>.\<close>

definition chunk_text :: "(string \<Rightarrow> error + string list) \<Rightarrow> string \<Rightarrow> error + string list" where
  "chunk_text split_text text = (if py_strip text = [] then Inr [] else split_text text)"


subsection \<open>Notions used in the statements\<close>

text \<open>\<open>polls cn k\<close> is the trace of \<open>k\<close> rounds of the polling loop: a sleep of three
  seconds, then a read of the collection.\<close>

definition polls :: "string \<Rightarrow> nat \<Rightarrow> trace" where
  "polls cn k = concat (replicate k [Sleep 3, GetCollection cn])"

text \<open>The answer to the read that ends trace \<open>t\<close> shows a keyword index on
  \<^verbatim>\<open>source\<close>.\<close>

definition index_confirmed :: "env \<Rightarrow> trace \<Rightarrow> bool" where
  "index_confirmed env t =
     (case get_collection_r env t of
        Inl e \<Rightarrow> False
      | Inr info \<Rightarrow> payload_schema info ''source'' = Some Keyword)"

subsection \<open>Example environments\<close>

definition info_indexed :: collection_info where
  "info_indexed = \<lparr>payload_schema = [''source'' \<mapsto> Keyword], points_count = Some 0\<rparr>"

definition info_bare :: collection_info where
  "info_bare = \<lparr>payload_schema = Map.empty, points_count = Some 0\<rparr>"

text \<open>Every service answers at once and well: the collection \<^verbatim>\<open>rag_alice\<close> exists and
  is indexed, the provider returns one (empty) vector per text, identifiers are all
  different.\<close>

definition env_ok :: env where
  "env_ok = \<lparr>
     get_collections_r = (\<lambda>h. Inr [''rag_alice'']),
     create_collection_r = (\<lambda>h. Inr ()),
     get_collection_r = (\<lambda>h. Inr info_indexed),
     create_payload_index_r = (\<lambda>h. Inr ()),
     upsert_r = (\<lambda>h. Inr ()),
     query_points_r = (\<lambda>h. Inr []),
     delete_r = (\<lambda>h. Inr ()),
     embed_r = (\<lambda>h. case last h of
                    ContextualizedEmbed m inputs ity \<Rightarrow> Inr (map (map (\<lambda>s. [])) inputs)
                  | _ \<Rightarrow> Inr []),
     uuid4_r = (\<lambda>h. replicate (length h) CHR ''u'')\<rparr>"

text \<open>The index shows up at the second poll; the index never shows up.\<close>

definition env_late :: env where
  "env_late = env_ok\<lparr>get_collection_r :=
     (\<lambda>h. Inr (if 6 \<le> length h then info_indexed else info_bare))\<rparr>"

definition env_never :: env where
  "env_never = env_ok\<lparr>get_collection_r := (\<lambda>h. Inr info_bare)\<rparr>"

text \<open>The provider rejects every request with a rate-limit error; the provider is
  unreachable; the similarity search fails; the store is unreachable; a collection of
  a thousand points.\<close>

definition env_rate_limited :: env where
  "env_rate_limited =
     env_ok\<lparr>embed_r := (\<lambda>h. Inl (VoyageError ''Rate limit exceeded (RPM)''))\<rparr>"

definition env_embed_down :: env where
  "env_embed_down = env_ok\<lparr>embed_r := (\<lambda>h. Inl (OtherException ''connection reset''))\<rparr>"

definition env_query_down :: env where
  "env_query_down = env_ok\<lparr>
     embed_r := (\<lambda>h. Inr [[[1, 0]]]),
     query_points_r := (\<lambda>h. Inl (OtherException ''timed out''))\<rparr>"

definition env_store_down :: env where
  "env_store_down =
     env_ok\<lparr>get_collection_r := (\<lambda>h. Inl (OtherException ''connection refused''))\<rparr>"

definition env_thousand :: env where
  "env_thousand = env_ok\<lparr>get_collection_r :=
     (\<lambda>h. Inr \<lparr>payload_schema = [''source'' \<mapsto> Keyword], points_count = Some 1000\<rparr>)\<rparr>"

subsection \<open>Kinds of calls\<close>

text \<open>Requests that go over the network (everything but sleeping and drawing an
  identifier), requests to the embedding provider, upserts, and the calls that index
  provisioning makes.\<close>

definition is_network_call :: "call \<Rightarrow> bool" where
  "is_network_call c = (case c of Sleep _ \<Rightarrow> False | Uuid4 \<Rightarrow> False | _ \<Rightarrow> True)"

definition is_provider_call :: "call \<Rightarrow> bool" where
  "is_provider_call c = (case c of ContextualizedEmbed _ _ _ \<Rightarrow> True | _ \<Rightarrow> False)"

definition is_upsert :: "call \<Rightarrow> bool" where
  "is_upsert c = (case c of Upsert _ _ \<Rightarrow> True | _ \<Rightarrow> False)"

definition is_provisioning :: "call \<Rightarrow> bool" where
  "is_provisioning c =
     (case c of
        GetCollection _ \<Rightarrow> True
      | CreatePayloadIndex _ _ _ \<Rightarrow> True
      | Sleep _ \<Rightarrow> True
      | _ \<Rightarrow> False)"

text \<open>The calls \<^verbatim>\<open>embed_and_store\<close> makes before it looks at the chunks: the listing,
  the creation of a collection that is not listed, index provisioning.\<close>

definition provision :: "env \<Rightarrow> string \<Rightarrow> trace \<Rightarrow> (error + unit) \<times> trace" where
  "provision env cn t =
     (case qdrant_get_collections env t of
        (Inl e, t1) \<Rightarrow> (Inl e, t1)
      | (Inr collection_names, t1) \<Rightarrow>
          (case (if cn \<notin> set collection_names
                 then qdrant_create_collection env cn 1024 Cosine t1
                 else (Inr (), t1)) of
             (Inl e, t2) \<Rightarrow> (Inl e, t2)
           | (Inr _, t2) \<Rightarrow> ensure_payload_indexes env cn t2))"

subsection \<open>The vector store's side\<close>

text \<open>Modelled from the spec: the vector store is a service outside the repository, and
  what its requests do to the stored points is taken from section 6 and the glossary of
  the specification: an upsert inserts a point or replaces the point that has the same
  identifier, a delete-by-filter removes the points that satisfy every \<^verbatim>\<open>must\<close>
  condition, a match condition holds when the payload has that value under that key.
  A store maps collection names to their points.  \<open>apply_calls\<close> replays the calls of
  a trace that the store has accepted.\<close>

type_synonym store = "string \<rightharpoonup> point list"

fun matches_condition :: "field_condition \<Rightarrow> point \<Rightarrow> bool" where
  "matches_condition (FieldCondition key (MatchValue v)) p = (payload p key = Some v)"

fun matches_filter :: "filter_cond \<Rightarrow> point \<Rightarrow> bool" where
  "matches_filter (Filter must) p = list_all (\<lambda>c. matches_condition c p) must"

fun upsert_point :: "point \<Rightarrow> point list \<Rightarrow> point list" where
  "upsert_point p [] = [p]"
| "upsert_point p (q # qs) =
     (if point_id q = point_id p then p # qs else q # upsert_point p qs)"

fun upsert_points :: "point list \<Rightarrow> point list \<Rightarrow> point list" where
  "upsert_points [] stored = stored"
| "upsert_points (p # ps) stored = upsert_points ps (upsert_point p stored)"

fun apply_call :: "call \<Rightarrow> store \<Rightarrow> store" where
  "apply_call (CreateCollection cn vsize metric) s =
     (case s cn of None \<Rightarrow> s(cn \<mapsto> []) | Some stored \<Rightarrow> s)"
| "apply_call (Upsert cn ps) s =
     (case s cn of None \<Rightarrow> s | Some stored \<Rightarrow> s(cn \<mapsto> upsert_points ps stored))"
| "apply_call (Delete cn selector) s =
     (case s cn of
        None \<Rightarrow> s
      | Some stored \<Rightarrow> s(cn \<mapsto> filter (\<lambda>p. \<not> matches_filter selector p) stored))"
| "apply_call c s = s"

fun apply_calls :: "call list \<Rightarrow> store \<Rightarrow> store" where
  "apply_calls [] s = s"
| "apply_calls (c # cs) s = apply_calls cs (apply_call c s)"

text \<open>The deletion fails.\<close>

definition env_delete_fails :: env where
  "env_delete_fails = env_ok\<lparr>delete_r := (\<lambda>h. Inl (OtherException ''write timed out''))\<rparr>"

text \<open>Three stored points, two of \<^verbatim>\<open>a.pdf\<close> and one of \<^verbatim>\<open>b.pdf\<close>.\<close>

definition stored_point :: "string \<Rightarrow> string \<Rightarrow> string \<Rightarrow> nat \<Rightarrow> point" where
  "stored_point pid chunk source idx =
     \<lparr>point_id = pid, vector = [],
      payload = [''text'' \<mapsto> PStr chunk, ''source'' \<mapsto> PStr source,
                 ''chunk_index'' \<mapsto> PInt (int idx)]\<rparr>"

definition store_ab :: store where
  "store_ab = [''rag_alice'' \<mapsto>
     [stored_point ''p1'' ''alpha'' ''a.pdf'' 0, stored_point ''p2'' ''beta'' ''b.pdf'' 0,
      stored_point ''p3'' ''gamma'' ''a.pdf'' 1]]"

subsection \<open>Batches and the shape of an ingestion\<close>

text \<open>The consecutive batches of a list: the first \<open>SAFE_BATCH_SIZE\<close> elements, then the
  batches of the rest.\<close>

function batches :: "'a list \<Rightarrow> 'a list list" where
  "batches xs =
     (if xs = [] then [] else take SAFE_BATCH_SIZE xs # batches (drop SAFE_BATCH_SIZE xs))"
  by pat_completeness auto
termination
  by (relation "measure length") (auto simp: SAFE_BATCH_SIZE_def)

declare batches.simps [simp del]

text \<open>The payload of the point of chunk number \<open>idx\<close> of a document.\<close>

definition chunk_payload :: "string \<Rightarrow> nat \<Rightarrow> string \<Rightarrow> (string \<rightharpoonup> payload_value)" where
  "chunk_payload source idx chunk =
     [''text'' \<mapsto> PStr chunk, ''source'' \<mapsto> PStr source, ''chunk_index'' \<mapsto> PInt (int idx)]"

text \<open>A call without the identifiers and vectors that the environment chose: an
  embedding request for a batch of texts in document mode, the draw of an identifier,
  an upsert with the payloads of its points, a sleep.\<close>

datatype step =
    EmbedStep "string list"
  | UuidStep
  | UpsertStep string "(string \<rightharpoonup> payload_value) list"
  | SleepStep nat
  | OtherStep

definition step_of :: "call \<Rightarrow> step" where
  "step_of c =
     (case c of
        ContextualizedEmbed m inputs ity \<Rightarrow>
          (case inputs of
             [b] \<Rightarrow> (case ity of Document \<Rightarrow> EmbedStep b | Query \<Rightarrow> OtherStep)
           | _ \<Rightarrow> OtherStep)
      | Uuid4 \<Rightarrow> UuidStep
      | Upsert cn ps \<Rightarrow> UpsertStep cn (map payload ps)
      | Sleep n \<Rightarrow> SleepStep n
      | _ \<Rightarrow> OtherStep)"

text \<open>What the ingestion of a list of batches looks like when nothing fails: per batch
  one embedding request, one identifier per chunk, one upsert of the batch's chunks in
  their order; a sleep of \<open>BASE_DELAY\<close> seconds between two batches and none at the
  end.  \<open>off\<close> is the position in the document of the first chunk.\<close>

fun batch_steps :: "string \<Rightarrow> string \<Rightarrow> nat \<Rightarrow> string list list \<Rightarrow> step list" where
  "batch_steps source cn off [] = []"
| "batch_steps source cn off (b # bs) =
     EmbedStep b # replicate (length b) UuidStep @
     [UpsertStep cn (map (\<lambda>j. chunk_payload source (off + j) (b ! j)) [0..<length b])] @
     (if bs = [] then [] else SleepStep BASE_DELAY # batch_steps source cn (off + length b) bs)"

text \<open>The provider answers every request for a batch at once, with one vector per
  text; the store accepts every upsert.\<close>

definition provider_answers :: "env \<Rightarrow> bool" where
  "provider_answers env =
     (\<forall>h b. \<exists>vs rest.
        embed_r env (h @ [ContextualizedEmbed ''voyage-context-3'' [b] Document]) = Inr (vs # rest) \<and>
        length vs = length b)"

definition upserts_accepted :: "env \<Rightarrow> bool" where
  "upserts_accepted env = (\<forall>h. upsert_r env h = Inr ())"

text \<open>Twenty chunks.\<close>

definition chunks20 :: "string list" where
  "chunks20 = [''c01'', ''c02'', ''c03'', ''c04'', ''c05'', ''c06'', ''c07'', ''c08'',
               ''c09'', ''c10'', ''c11'', ''c12'', ''c13'', ''c14'', ''c15'', ''c16'',
               ''c17'', ''c18'', ''c19'', ''c20'']"

subsection \<open>Points added by an ingestion\<close>

text \<open>The points of the upserts of a trace, in order; the identifiers that the draws of
  a trace produced, \<open>h\<close> being the trace before; the calls that neither remove nor
  address another collection than \<open>cn\<close>; the calls of the set-up phase; calls that
  neither write to the store nor draw an identifier.\<close>

fun upserted :: "call list \<Rightarrow> point list" where
  "upserted [] = []"
| "upserted (Upsert cn ps # cs) = ps @ upserted cs"
| "upserted (c # cs) = upserted cs"

fun drawn_ids :: "env \<Rightarrow> trace \<Rightarrow> call list \<Rightarrow> string list" where
  "drawn_ids env h [] = []"
| "drawn_ids env h (c # cs) =
     (case c of Uuid4 \<Rightarrow> [uuid4_r env (h @ [c])] | _ \<Rightarrow> []) @ drawn_ids env (h @ [c]) cs"

definition is_delete :: "call \<Rightarrow> bool" where
  "is_delete c = (case c of Delete _ _ \<Rightarrow> True | _ \<Rightarrow> False)"

definition adds_only :: "string \<Rightarrow> call \<Rightarrow> bool" where
  "adds_only cn c =
     (case c of
        Upsert cn' _ \<Rightarrow> cn' = cn
      | CreateCollection cn' _ _ \<Rightarrow> cn' = cn
      | Delete _ _ \<Rightarrow> False
      | _ \<Rightarrow> True)"

definition is_setup :: "string \<Rightarrow> call \<Rightarrow> bool" where
  "is_setup cn c =
     (case c of
        GetCollections \<Rightarrow> True
      | CreateCollection cn' _ _ \<Rightarrow> cn' = cn
      | GetCollection _ \<Rightarrow> True
      | CreatePayloadIndex _ _ _ \<Rightarrow> True
      | Sleep _ \<Rightarrow> True
      | _ \<Rightarrow> False)"

definition is_passive :: "call \<Rightarrow> bool" where
  "is_passive c =
     (case c of
        CreateCollection _ _ _ \<Rightarrow> False
      | Upsert _ _ \<Rightarrow> False
      | Delete _ _ \<Rightarrow> False
      | Uuid4 \<Rightarrow> False
      | _ \<Rightarrow> True)"

text \<open>Whenever the provider answers a request for one batch, the answer has one vector
  per text (section 4.2 of the specification).\<close>

definition one_vector_per_text :: "env \<Rightarrow> bool" where
  "one_vector_per_text env =
     (\<forall>h m b ity vs rest.
        embed_r env (h @ [ContextualizedEmbed m [b] ity]) = Inr (vs # rest) \<longrightarrow>
        length vs = length b)"

text \<open>The trace of a first ingestion of two chunks of \<^verbatim>\<open>a.pdf\<close>.\<close>

definition first_ingestion :: trace where
  "first_ingestion = snd (embed_and_store env_ok [''alpha'', ''beta''] ''a.pdf'' ''rag_alice'' [])"

subsection \<open>Reading the hits\<close>

text \<open>A point of a query answer has the three payload keys the result dictionary reads;
  the dictionary built from such a point.\<close>

definition has_hit_keys :: "scored_point \<Rightarrow> bool" where
  "has_hit_keys p =
     (sp_payload p ''text'' \<noteq> None \<and> sp_payload p ''source'' \<noteq> None \<and>
      sp_payload p ''chunk_index'' \<noteq> None)"

definition the_hit :: "scored_point \<Rightarrow> hit" where
  "the_hit p =
     \<lparr>hit_text = the (sp_payload p ''text''), hit_source = the (sp_payload p ''source''),
      hit_chunk_index = the (sp_payload p ''chunk_index''), hit_score = sp_score p\<rparr>"

text \<open>The provider answers with no vector; the store answers with a point that lacks
  two payload keys; the store answers with one well-formed point.\<close>

definition env_no_vector :: env where
  "env_no_vector = env_ok\<lparr>embed_r := (\<lambda>h. Inr [[]])\<rparr>"

definition env_bad_payload :: env where
  "env_bad_payload = env_ok\<lparr>
     embed_r := (\<lambda>h. Inr [[[1, 0]]]),
     query_points_r := (\<lambda>h. Inr [\<lparr>sp_payload = [''text'' \<mapsto> PStr ''alpha''], sp_score = 1\<rparr>])\<rparr>"

definition env_one_hit :: env where
  "env_one_hit = env_ok\<lparr>
     embed_r := (\<lambda>h. Inr [[[1, 0]]]),
     query_points_r := (\<lambda>h. Inr [\<lparr>sp_payload = [''text'' \<mapsto> PStr ''alpha'',
        ''source'' \<mapsto> PStr ''a.pdf'', ''chunk_index'' \<mapsto> PInt 0], sp_score = 1\<rparr>])\<rparr>"

subsection \<open>Retried attempts\<close>

text \<open>\<open>retries b ws\<close> is the trace of failed attempts for batch \<open>b\<close> that were retried:
  each is the request followed by its back-off sleep, \<open>ws\<close> the sleeps in seconds.
  \<open>strip_retries\<close> leaves out of a trace every provider request that is directly
  followed by a sleep, together with that sleep.\<close>

definition retries :: "string list \<Rightarrow> nat list \<Rightarrow> call list" where
  "retries b ws =
     concat (map (\<lambda>w. [ContextualizedEmbed ''voyage-context-3'' [b] Document, Sleep w]) ws)"

fun strip_retries :: "call list \<Rightarrow> call list" where
  "strip_retries (ContextualizedEmbed m inputs ity # Sleep w # cs) = strip_retries cs"
| "strip_retries (c # cs) = c # strip_retries cs"
| "strip_retries [] = []"

text \<open>The requests of a trace without the draws of identifiers and without the points
  of the upserts; and what they are for a list of batches when no attempt is retried:
  per batch one embedding request and one upsert, a sleep of \<open>BASE_DELAY\<close> seconds
  between two batches.\<close>

datatype request =
    EmbedRequest "string list"
  | UpsertRequest string
  | Pause nat
  | OtherRequest

fun outline :: "call list \<Rightarrow> request list" where
  "outline [] = []"
| "outline (c # cs) =
     (case c of
        Uuid4 \<Rightarrow> outline cs
      | ContextualizedEmbed m inputs ity \<Rightarrow>
          (case inputs of
             [b] \<Rightarrow> (case ity of Document \<Rightarrow> EmbedRequest b | Query \<Rightarrow> OtherRequest)
           | _ \<Rightarrow> OtherRequest) # outline cs
      | Upsert cn ps \<Rightarrow> UpsertRequest cn # outline cs
      | Sleep n \<Rightarrow> Pause n # outline cs
      | _ \<Rightarrow> OtherRequest # outline cs)"

fun batch_outline :: "string \<Rightarrow> string list list \<Rightarrow> request list" where
  "batch_outline cn [] = []"
| "batch_outline cn (b # bs) =
     EmbedRequest b # UpsertRequest cn #
     (if bs = [] then [] else Pause BASE_DELAY # batch_outline cn bs)"

text \<open>The provider rejects the first request with a rate-limit error and answers from
  then on.\<close>

definition env_retry_once :: env where
  "env_retry_once = env_ok\<lparr>embed_r :=
     (\<lambda>h. if length h \<le> 3 then Inl (VoyageError ''Rate limit exceeded (RPM)'')
          else (case last h of
                  ContextualizedEmbed m inputs ity \<Rightarrow> Inr (map (map (\<lambda>s. [])) inputs)
                | _ \<Rightarrow> Inr []))\<rparr>"

section \<open>Properties\<close>

subsection \<open>Index provisioning\<close>

lemma poll_index_trace:
  "poll_index env cn f s n t = (r, t') \<Longrightarrow>
   \<exists>k\<le>n. t' = t @ polls cn k \<and>
     (case r of
        Inr ex \<Rightarrow> 1 \<le> k \<and> (\<exists>info. get_collection_r env t' = Inr info \<and>
                    payload_schema info f = Some s \<and> ex = payload_schema info)
      | Inl e \<Rightarrow>
          (k = n \<and> e = RuntimeError (''Failed to confirm index for '' @ f @ '' after 10 attempts'') \<and>
             (n = 0 \<or> (\<exists>info. get_collection_r env t' = Inr info \<and> payload_schema info f \<noteq> Some s)))
          \<or> (1 \<le> k \<and> get_collection_r env t' = Inl e))"
proof (induction n arbitrary: t)
  case 0
  then show ?case by (auto simp: polls_def)
next
  case (Suc n)
  let ?t2 = "t @ [Sleep 3, GetCollection cn]"
  show ?case
  proof (cases "get_collection_r env ?t2")
    case (Inl e)
    with Suc.prems have "r = Inl e" "t' = ?t2"
      by (auto simp: qdrant_get_collection_def sleep_def Let_def)
    then show ?thesis using Inl
      by (intro exI[of _ 1]) (simp add: polls_def)
  next
    case (Inr info)
    show ?thesis
    proof (cases "payload_schema info f = Some s")
      case True
      with Suc.prems Inr have "r = Inr (payload_schema info)" "t' = ?t2"
        by (auto simp: qdrant_get_collection_def sleep_def Let_def)
      then show ?thesis using Inr True
        by (intro exI[of _ 1]) (simp add: polls_def)
    next
      case False
      with Suc.prems Inr have rec: "poll_index env cn f s n ?t2 = (r, t')"
        by (auto simp: qdrant_get_collection_def sleep_def Let_def)
      from Suc.IH[OF rec] obtain k where k: "k \<le> n" "t' = ?t2 @ polls cn k"
        and c: "(case r of
        Inr ex \<Rightarrow> 1 \<le> k \<and> (\<exists>info. get_collection_r env t' = Inr info \<and>
                    payload_schema info f = Some s \<and> ex = payload_schema info)
      | Inl e \<Rightarrow>
          (k = n \<and> e = RuntimeError (''Failed to confirm index for '' @ f @ '' after 10 attempts'') \<and>
             (n = 0 \<or> (\<exists>info. get_collection_r env t' = Inr info \<and> payload_schema info f \<noteq> Some s)))
          \<or> (1 \<le> k \<and> get_collection_r env t' = Inl e))" by blast
      have t': "t' = t @ polls cn (Suc k)" using k(2) by (simp add: polls_def)
      have n0: "n = 0 \<Longrightarrow> t' = ?t2" using k by (simp add: polls_def)
      show ?thesis
        apply (rule exI[of _ "Suc k"])
        using k(1) t' c Inr False n0
        by (auto split: sum.splits)
    qed
  qed
qed

text \<open>
  Claim C4.  Let the first read of the collection answer with a schema.  If the schema
  has a keyword index on \<^verbatim>\<open>source\<close>, \<^verbatim>\<open>ensure_payload_indexes\<close> makes no further
  call (in particular no index-creation request) and returns successfully.  Otherwise it
  requests the index and then runs \<open>k \<le> 10\<close> polls, each a sleep of three seconds
  followed by a read; it returns successfully exactly when a poll took place and the
  last one showed the index, and when the tenth poll leaves the index unconfirmed the
  call ends in an error.
\<close>

theorem ensure_payload_indexes_idempotent_bounded:
  assumes "get_collection_r env (t @ [GetCollection cn]) = Inr info"
  shows "(payload_schema info ''source'' = Some Keyword \<longrightarrow>
            ensure_payload_indexes env cn t = (Inr (), t @ [GetCollection cn])) \<and>
         (payload_schema info ''source'' \<noteq> Some Keyword \<longrightarrow>
            (\<exists>k\<le>10.
               snd (ensure_payload_indexes env cn t) =
                 t @ [GetCollection cn, CreatePayloadIndex cn ''source'' Keyword] @ polls cn k \<and>
               (fst (ensure_payload_indexes env cn t) = Inr () \<longleftrightarrow>
                  1 \<le> k \<and> index_confirmed env (snd (ensure_payload_indexes env cn t))) \<and>
               (k = 10 \<and> \<not> index_confirmed env (snd (ensure_payload_indexes env cn t)) \<longrightarrow>
                  (\<exists>e. fst (ensure_payload_indexes env cn t) = Inl e))))"
proof (intro conjI impI)
  assume "payload_schema info ''source'' = Some Keyword"
  with assms show "ensure_payload_indexes env cn t = (Inr (), t @ [GetCollection cn])"
    by (simp add: ensure_payload_indexes_def qdrant_get_collection_def required_def)
next
  assume missing: "payload_schema info ''source'' \<noteq> Some Keyword"
  let ?t1 = "t @ [GetCollection cn]"
  let ?t2 = "?t1 @ [CreatePayloadIndex cn ''source'' Keyword]"
  let ?run = "ensure_payload_indexes env cn t"
  let ?goal = "\<lambda>k. snd ?run = t @ [GetCollection cn, CreatePayloadIndex cn ''source'' Keyword] @ polls cn k \<and>
               (fst ?run = Inr () \<longleftrightarrow> 1 \<le> k \<and> index_confirmed env (snd ?run)) \<and>
               (k = 10 \<and> \<not> index_confirmed env (snd ?run) \<longrightarrow> (\<exists>e. fst ?run = Inl e))"
  show "\<exists>k\<le>10. ?goal k"
  proof (cases "create_payload_index_r env ?t2")
    case (Inl e)
    with assms missing have "?run = (Inl e, ?t2)"
      by (simp add: ensure_payload_indexes_def qdrant_get_collection_def required_def
          qdrant_create_payload_index_def)
    then have "?goal 0" by (simp add: polls_def)
    then show ?thesis by blast
  next
    case (Inr u)
    obtain r t' where p: "poll_index env cn ''source'' Keyword 10 ?t2 = (r, t')"
      by (cases "poll_index env cn ''source'' Keyword 10 ?t2")
    from poll_index_trace[OF p] obtain k where k: "k \<le> 10" "t' = ?t2 @ polls cn k"
      and c: "(case r of
        Inr ex \<Rightarrow> 1 \<le> k \<and> (\<exists>info. get_collection_r env t' = Inr info \<and>
                    payload_schema info ''source'' = Some Keyword \<and> ex = payload_schema info)
      | Inl e \<Rightarrow>
          (k = 10 \<and> e = RuntimeError (''Failed to confirm index for '' @ ''source'' @ '' after 10 attempts'') \<and>
             ((10::nat) = 0 \<or> (\<exists>info. get_collection_r env t' = Inr info \<and> payload_schema info ''source'' \<noteq> Some Keyword)))
          \<or> (1 \<le> k \<and> get_collection_r env t' = Inl e))" by blast
    have run: "?run = (case r of Inl e \<Rightarrow> Inl e | Inr ex \<Rightarrow> Inr (), t')"
      using assms missing Inr p
      by (simp add: ensure_payload_indexes_def qdrant_get_collection_def required_def
          qdrant_create_payload_index_def split: sum.splits)
    have "?goal k"
      using k c unfolding run
      by (cases r) (auto simp: index_confirmed_def)
    with k(1) show ?thesis by blast
  qed
qed

theorem ensure_payload_indexes_idempotent_bounded_witness:
  "ensure_payload_indexes env_ok ''rag_alice'' [] = (Inr (), [GetCollection ''rag_alice'']) \<and>
   ensure_payload_indexes env_late ''rag_alice'' [] =
     (Inr (), [GetCollection ''rag_alice'', CreatePayloadIndex ''rag_alice'' ''source'' Keyword,
               Sleep 3, GetCollection ''rag_alice'', Sleep 3, GetCollection ''rag_alice'']) \<and>
   (\<exists>e. fst (ensure_payload_indexes env_never ''rag_alice'' []) = Inl e) \<and>
   snd (ensure_payload_indexes env_never ''rag_alice'' []) =
     [GetCollection ''rag_alice'', CreatePayloadIndex ''rag_alice'' ''source'' Keyword]
       @ polls ''rag_alice'' 10"
  using ensure_payload_indexes_idempotent_bounded
          [of env_ok "[]" "''rag_alice''" info_indexed]
        ensure_payload_indexes_idempotent_bounded
          [of env_late "[]" "''rag_alice''" info_bare]
        ensure_payload_indexes_idempotent_bounded
          [of env_never "[]" "''rag_alice''" info_bare]
  by (simp add: env_ok_def env_late_def env_never_def info_indexed_def info_bare_def
      ensure_payload_indexes_def qdrant_get_collection_def required_def
      qdrant_create_payload_index_def sleep_def polls_def index_confirmed_def
      eval_nat_numeral)

subsection \<open>Retrying the embedding request\<close>

lemma is_rate_limit_example: "is_rate_limit ''Rate limit exceeded (RPM)''"
  by code_simp

text \<open>The second handler: when every attempt fails with an exception that is not a
  \<open>VoyageError\<close>, the last attempt re-raises it.\<close>

lemma embed_retry_loop_other_error:
  assumes "\<And>h. embed_r env h = Inl e" and "\<And>m. e \<noteq> VoyageError m"
  shows "attempt < MAX_RETRIES \<Longrightarrow> fst (embed_retry_loop env batch attempt t) = Inl e"
  using assms
proof (induction env batch attempt t rule: embed_retry_loop.induct)
  case (1 env batch attempt t)
  let ?t1 = "t @ [ContextualizedEmbed ''voyage-context-3'' [batch] Document]"
  have oe: "on_embed_error e attempt ?t1 =
      (if attempt < MAX_RETRIES - 1 then (Continue, sleep (10 * 2 ^ attempt) ?t1) else (Raise e, ?t1))"
    using "1.prems"(3) by (cases e) (auto simp: on_embed_error_def)
  have a: "embed_attempt env batch attempt t = on_embed_error e attempt ?t1"
    using "1.prems"(2) by (simp add: embed_attempt_def contextualized_embed_def)
  show ?case
  proof (cases "attempt < MAX_RETRIES - 1")
    case True
    have "fst (embed_retry_loop env batch (attempt + 1) (sleep (10 * 2 ^ attempt) ?t1)) = Inl e"
      using "1.IH"[OF "1.prems"(1) _ refl, of "sleep (10 * 2 ^ attempt) ?t1"] a oe True "1.prems"
      by (simp add: MAX_RETRIES_def)
    then show ?thesis using "1.prems"(1) a oe True
      by (subst embed_retry_loop.simps) simp
  next
    case False
    then show ?thesis using "1.prems"(1) a oe
      by (subst embed_retry_loop.simps) simp
  qed
qed

lemma embed_retry_loop_rate_limited:
  assumes "\<And>h. \<exists>msg. embed_r env h = Inl (VoyageError msg) \<and> is_rate_limit msg"
  shows "fst (embed_retry_loop env batch attempt t) = Inr None"
  using assms
proof (induction env batch attempt t rule: embed_retry_loop.induct)
  case (1 env batch attempt t)
  show ?case
  proof (cases "attempt < MAX_RETRIES")
    case True
    let ?t1 = "t @ [ContextualizedEmbed ''voyage-context-3'' [batch] Document]"
    obtain msg where m: "embed_r env ?t1 = Inl (VoyageError msg)" "is_rate_limit msg"
      using "1.prems" by blast
    then have a: "embed_attempt env batch attempt t =
        (Continue, sleep (BASE_DELAY + attempt * 10) ?t1)"
      by (simp add: embed_attempt_def contextualized_embed_def on_embed_error_def)
    show ?thesis
      using "1.IH"[OF True a[symmetric] refl] "1.prems" True a
      by (subst embed_retry_loop.simps) simp
  next
    case False
    then show ?thesis by (simp add: embed_retry_loop.simps)
  qed
qed

text \<open>
  Claim C1 (the code departs from it).  When the provider answers every attempt with a
  rate-limit error, \<^verbatim>\<open>embed_batch_with_retry\<close> raises nothing: the first handler
  sleeps and continues in the tenth iteration as in the others, the loop ends, and the
  function returns \<^verbatim>\<open>None\<close>.
\<close>

theorem embed_batch_with_retry_rate_limited_returns_None:
  assumes "\<forall>h. \<exists>msg. embed_r env h = Inl (VoyageError msg) \<and> is_rate_limit msg"
  shows "fst (embed_batch_with_retry env batch t) = Inr None"
  using assms embed_retry_loop_rate_limited[of env batch 0 t]
  by (simp add: embed_batch_with_retry_def)

theorem embed_batch_with_retry_rate_limited_returns_None_witness:
  "(\<forall>h. \<exists>msg. embed_r env_rate_limited h = Inl (VoyageError msg) \<and> is_rate_limit msg) \<and>
   embed_batch_with_retry env_rate_limited [''a'', ''b''] [] =
     (Inr None,
      concat (map (\<lambda>k. [ContextualizedEmbed ''voyage-context-3'' [[''a'', ''b'']] Document,
                         Sleep (20 + 10 * k)]) [0..<10]))"
  using embed_batch_with_retry_rate_limited_returns_None[of env_rate_limited "[''a'', ''b'']" "[]"]
  by (simp add: embed_batch_with_retry_def embed_retry_loop.simps embed_attempt_def
      contextualized_embed_def env_rate_limited_def env_ok_def on_embed_error_def
      is_rate_limit_example MAX_RETRIES_def BASE_DELAY_def sleep_def upt_rec)

subsection \<open>Retrieval\<close>

text \<open>
  Claim C2, as stated, fails: a failure of index confirmation is not caught.  With a
  collection whose index never shows up, \<^verbatim>\<open>search_relevant_chunks\<close> ends in the
  \<^verbatim>\<open>RuntimeError\<close> of \<^verbatim>\<open>ensure_payload_indexes\<close>.
\<close>

theorem search_relevant_chunks_index_failure_propagates:
  "fst (search_relevant_chunks env_never ''what?'' ''rag_alice'' 8 []) =
     Inl (RuntimeError ''Failed to confirm index for source after 10 attempts'')"
  by (simp add: search_relevant_chunks_def qdrant_get_collections_def env_never_def env_ok_def
      ensure_payload_indexes_def qdrant_get_collection_def required_def info_bare_def
      qdrant_create_payload_index_def sleep_def eval_nat_numeral)

lemma hit_of_keys: "has_hit_keys p \<Longrightarrow> hit_of p = Inr (the_hit p)"
  by (auto simp: has_hit_keys_def hit_of_def the_hit_def)

lemma hit_of_missing: "\<not> has_hit_keys p \<Longrightarrow> \<exists>e. hit_of p = Inl e"
  by (auto simp: has_hit_keys_def hit_of_def split: option.splits)

lemma hits_of_keys: "list_all has_hit_keys pts \<Longrightarrow> hits_of pts = Inr (map the_hit pts)"
  by (induction pts) (simp_all add: hit_of_keys)

lemma hits_of_missing: "\<not> list_all has_hit_keys pts \<Longrightarrow> \<exists>e. hits_of pts = Inl e"
proof (induction pts)
  case Nil
  then show ?case by simp
next
  case (Cons p pts)
  show ?case
  proof (cases "has_hit_keys p")
    case True
    with Cons.prems have "\<not> list_all has_hit_keys pts" by simp
    then obtain e where "hits_of pts = Inl e" using Cons.IH by blast
    then show ?thesis by (simp add: hit_of_keys[OF True])
  next
    case False
    then obtain e where "hit_of p = Inl e" using hit_of_missing by blast
    then show ?thesis by simp
  qed
qed

text \<open>
  Claim C2, amended.  A failure of the collection listing or of index provisioning
  propagates to the caller.  Once the collection is listed and provisioning has
  succeeded, \<^verbatim>\<open>search_relevant_chunks\<close> never raises.  It returns the empty list
  when embedding the question fails, when the provider's answer holds no vector, when
  the similarity search fails, and when a returned point lacks one of the payload keys
  \<^verbatim>\<open>text\<close>, \<^verbatim>\<open>source\<close>, \<^verbatim>\<open>chunk_index\<close>; otherwise it returns one result per
  returned point, in the order of the answer.
\<close>

theorem search_relevant_chunks_degrades_after_provisioning:
  "(\<forall>e. get_collections_r env (t @ [GetCollections]) = Inl e \<longrightarrow>
      search_relevant_chunks env question cn top_k t = (Inl e, t @ [GetCollections])) \<and>
   (\<forall>names. get_collections_r env (t @ [GetCollections]) = Inr names \<and> cn \<in> set names \<longrightarrow>
      (case ensure_payload_indexes env cn (t @ [GetCollections]) of
         (Inl e, t2) \<Rightarrow> search_relevant_chunks env question cn top_k t = (Inl e, t2)
       | (Inr u, t2) \<Rightarrow>
           (\<exists>hs. fst (search_relevant_chunks env question cn top_k t) = Inr hs) \<and>
           (\<forall>e. embed_r env (t2 @ [ContextualizedEmbed ''voyage-context-3'' [[question]] Query])
                   = Inl e \<longrightarrow>
              search_relevant_chunks env question cn top_k t =
                (Inr [], t2 @ [ContextualizedEmbed ''voyage-context-3'' [[question]] Query])) \<and>
           (\<forall>rs. embed_r env (t2 @ [ContextualizedEmbed ''voyage-context-3'' [[question]] Query])
                    = Inr [] \<or>
                  embed_r env (t2 @ [ContextualizedEmbed ''voyage-context-3'' [[question]] Query])
                    = Inr ([] # rs) \<longrightarrow>
              search_relevant_chunks env question cn top_k t =
                (Inr [], t2 @ [ContextualizedEmbed ''voyage-context-3'' [[question]] Query])) \<and>
           (\<forall>v vs rs e.
              embed_r env (t2 @ [ContextualizedEmbed ''voyage-context-3'' [[question]] Query])
                = Inr ((v # vs) # rs) \<and>
              query_points_r env
                (t2 @ [ContextualizedEmbed ''voyage-context-3'' [[question]] Query,
                       QueryPoints cn v top_k True False]) = Inl e \<longrightarrow>
              search_relevant_chunks env question cn top_k t =
                (Inr [], t2 @ [ContextualizedEmbed ''voyage-context-3'' [[question]] Query,
                               QueryPoints cn v top_k True False])) \<and>
           (\<forall>v vs rs pts.
              embed_r env (t2 @ [ContextualizedEmbed ''voyage-context-3'' [[question]] Query])
                = Inr ((v # vs) # rs) \<and>
              query_points_r env
                (t2 @ [ContextualizedEmbed ''voyage-context-3'' [[question]] Query,
                       QueryPoints cn v top_k True False]) = Inr pts \<longrightarrow>
              search_relevant_chunks env question cn top_k t =
                (Inr (if list_all has_hit_keys pts then map the_hit pts else []),
                 t2 @ [ContextualizedEmbed ''voyage-context-3'' [[question]] Query,
                       QueryPoints cn v top_k True False]))))"
proof -
  have hits: "(case hits_of pts of Inl e \<Rightarrow> (Inr [], tr) | Inr hs \<Rightarrow> (Inr hs, tr)) =
      (Inr (if list_all has_hit_keys pts then map the_hit pts else []), tr)" for pts and tr :: trace
  proof (cases "list_all has_hit_keys pts")
    case True
    then show ?thesis by (simp add: hits_of_keys)
  next
    case False
    then obtain e where "hits_of pts = Inl e" using hits_of_missing by blast
    with False show ?thesis by simp
  qed
  show ?thesis
    by (auto simp: search_relevant_chunks_def qdrant_get_collections_def contextualized_embed_def
        qdrant_query_points_def first_vector_def hits
        split: prod.splits sum.splits list.splits)
qed

theorem search_relevant_chunks_degrades_after_provisioning_witness:
  "search_relevant_chunks env_embed_down ''what?'' ''rag_alice'' 8 [] =
     (Inr [], [GetCollections, GetCollection ''rag_alice'',
               ContextualizedEmbed ''voyage-context-3'' [[''what?'']] Query]) \<and>
   search_relevant_chunks env_no_vector ''what?'' ''rag_alice'' 8 [] =
     (Inr [], [GetCollections, GetCollection ''rag_alice'',
               ContextualizedEmbed ''voyage-context-3'' [[''what?'']] Query]) \<and>
   search_relevant_chunks env_query_down ''what?'' ''rag_alice'' 8 [] =
     (Inr [], [GetCollections, GetCollection ''rag_alice'',
               ContextualizedEmbed ''voyage-context-3'' [[''what?'']] Query,
               QueryPoints ''rag_alice'' [1, 0] 8 True False]) \<and>
   fst (search_relevant_chunks env_bad_payload ''what?'' ''rag_alice'' 8 []) = Inr [] \<and>
   fst (search_relevant_chunks env_one_hit ''what?'' ''rag_alice'' 8 []) =
     Inr [\<lparr>hit_text = PStr ''alpha'', hit_source = PStr ''a.pdf'', hit_chunk_index = PInt 0,
           hit_score = 1\<rparr>] \<and>
   search_relevant_chunks env_store_down ''what?'' ''rag_alice'' 8 [] =
     (Inl (OtherException ''connection refused''), [GetCollections, GetCollection ''rag_alice''])"
  using search_relevant_chunks_degrades_after_provisioning
          [of env_embed_down "[]" "''what?''" "''rag_alice''" 8]
        search_relevant_chunks_degrades_after_provisioning
          [of env_no_vector "[]" "''what?''" "''rag_alice''" 8]
        search_relevant_chunks_degrades_after_provisioning
          [of env_query_down "[]" "''what?''" "''rag_alice''" 8]
        search_relevant_chunks_degrades_after_provisioning
          [of env_bad_payload "[]" "''what?''" "''rag_alice''" 8]
        search_relevant_chunks_degrades_after_provisioning
          [of env_one_hit "[]" "''what?''" "''rag_alice''" 8]
        search_relevant_chunks_degrades_after_provisioning
          [of env_store_down "[]" "''what?''" "''rag_alice''" 8]
  by (simp add: search_relevant_chunks_def qdrant_get_collections_def contextualized_embed_def
      qdrant_query_points_def first_vector_def env_embed_down_def env_query_down_def
      env_no_vector_def env_bad_payload_def env_one_hit_def hit_of_def
      env_store_down_def env_ok_def ensure_payload_indexes_def qdrant_get_collection_def
      required_def info_indexed_def)

text \<open>
  Claim C6.  When the listing of collections does not contain the collection name,
  \<^verbatim>\<open>search_relevant_chunks\<close> returns the empty list without raising, and the listing
  is its only call.
\<close>

theorem search_relevant_chunks_absent_collection:
  assumes "get_collections_r env (t @ [GetCollections]) = Inr names" and "cn \<notin> set names"
  shows "search_relevant_chunks env question cn top_k t = (Inr [], t @ [GetCollections])"
  using assms by (simp add: search_relevant_chunks_def qdrant_get_collections_def)

theorem search_relevant_chunks_absent_collection_witness:
  "get_collections_r env_ok [GetCollections] = Inr [''rag_alice''] \<and>
   ''rag_bob'' \<notin> set [''rag_alice''] \<and>
   search_relevant_chunks env_ok ''what?'' ''rag_bob'' 8 [] = (Inr [], [GetCollections])"
  using search_relevant_chunks_absent_collection
          [of env_ok "[]" "[''rag_alice'']" "''rag_bob''" "''what?''" 8]
  by (simp add: env_ok_def)

subsection \<open>Storage statistics\<close>

lemma py_round2_close: "\<bar>py_round2 x - x\<bar> \<le> 1 / 200"
proof -
  define y where "y = x * 100"
  define f where "f = \<lfloor>y\<rfloor>"
  have b: "of_int f \<le> y" "y < of_int f + 1" unfolding f_def by linarith+
  have "\<bar>py_round2 x * 100 - y\<bar> \<le> 1 / 2"
    using b unfolding py_round2_def y_def[symmetric] Let_def f_def[symmetric]
    by (auto simp: abs_le_iff)
  then show ?thesis unfolding y_def by arith
qed

text \<open>
  Claim C8.  \<^verbatim>\<open>get_collection_stats\<close> never raises.  When the read of the collection
  fails (or carries no point count) it returns 0 chunks, 0 used and the whole limit of
  500 as available.  Otherwise the used capacity is the point count times
  \<open>ESTIMATED_BYTES_PER_CHUNK = 5096\<close> bytes, expressed in megabytes and rounded to two
  decimals.  The last part is stated for point counts below \<open>2 ^ 40\<close>, where the
  product and the quotient are exact in double precision and the real numbers of the
  model are the decimals that Python prints.
\<close>

theorem get_collection_stats_estimate_or_zero:
  "(\<exists>s. fst (get_collection_stats env cn t) = Inr s) \<and>
   (\<forall>e. get_collection_r env (t @ [GetCollection cn]) = Inl e \<longrightarrow>
      fst (get_collection_stats env cn t) =
        Inr \<lparr>total_chunks = 0, used_mb = 0, available_mb = 500, limit_mb = 500\<rparr>) \<and>
   (\<forall>info. get_collection_r env (t @ [GetCollection cn]) = Inr info \<and>
           points_count info = None \<longrightarrow>
      fst (get_collection_stats env cn t) =
        Inr \<lparr>total_chunks = 0, used_mb = 0, available_mb = 500, limit_mb = 500\<rparr>) \<and>
   (\<forall>info n. get_collection_r env (t @ [GetCollection cn]) = Inr info \<and>
             points_count info = Some n \<and> 0 \<le> n \<and> n < 2 ^ 40 \<longrightarrow>
      (\<exists>s. fst (get_collection_stats env cn t) = Inr s \<and>
           total_chunks s = n \<and>
           used_mb s = py_round2 (of_int (n * ESTIMATED_BYTES_PER_CHUNK) / (1024 * 1024)) \<and>
           \<bar>used_mb s - of_int (n * 5096) / (1024 * 1024)\<bar> \<le> 1 / 200 \<and>
           limit_mb s = 500))"
  using py_round2_close
  by (auto simp: get_collection_stats_def qdrant_get_collection_def zeroed_stats_def
      USER_STORAGE_LIMIT_MB_def ESTIMATED_BYTES_PER_CHUNK_def Let_def
      split: option.splits sum.splits)

theorem get_collection_stats_estimate_or_zero_witness:
  "fst (get_collection_stats env_store_down ''rag_alice'' []) =
     Inr \<lparr>total_chunks = 0, used_mb = 0, available_mb = 500, limit_mb = 500\<rparr> \<and>
   fst (get_collection_stats env_thousand ''rag_alice'' []) =
     Inr \<lparr>total_chunks = 1000, used_mb = 486 / 100, available_mb = 49514 / 100,
          limit_mb = 500\<rparr>"
  using get_collection_stats_estimate_or_zero[of env_store_down "''rag_alice''" "[]"]
        get_collection_stats_estimate_or_zero[of env_thousand "''rag_alice''" "[]"]
  by (simp add: get_collection_stats_def qdrant_get_collection_def zeroed_stats_def
      USER_STORAGE_LIMIT_MB_def ESTIMATED_BYTES_PER_CHUNK_def env_store_down_def
      env_thousand_def env_ok_def py_round2_def Let_def)

subsection \<open>Chunking\<close>

text \<open>
  Claim C9.  For a text that is empty or consists of whitespace only, \<^verbatim>\<open>chunk_text\<close>
  returns the empty list; the splitter is not consulted, so nothing it might raise can
  come out.
\<close>

theorem chunk_text_blank:
  assumes "\<forall>c\<in>set text. py_isspace c"
  shows "chunk_text split_text text = Inr []"
proof -
  have blank: "dropWhile py_isspace text = []" using assms by simp
  show ?thesis unfolding chunk_text_def py_strip_def blank by simp
qed

theorem chunk_text_blank_witness:
  "list_all py_isspace [CHR 0x20, CHR 0x0A, CHR 0x09, CHR 0xA0] \<and>
   chunk_text (\<lambda>s. Inl (OtherException ''splitter called''))
     [CHR 0x20, CHR 0x0A, CHR 0x09, CHR 0xA0] = Inr [] \<and>
   chunk_text (\<lambda>s. Inl (OtherException ''splitter called'')) '''' = Inr [] \<and>
   chunk_text (\<lambda>s. Inl (OtherException ''splitter called'')) '' a '' =
     Inl (OtherException ''splitter called'')"
  using chunk_text_blank
          [of "[CHR 0x20, CHR 0x0A, CHR 0x09, CHR 0xA0]"
              "\<lambda>s. Inl (OtherException ''splitter called'')"]
        chunk_text_blank[of "''''" "\<lambda>s. Inl (OtherException ''splitter called'')"]
  by (simp add: py_isspace_def chunk_text_def py_strip_def)

subsection \<open>Ingesting no chunks\<close>

lemma polls_provisioning: "list_all is_provisioning (polls cn k)"
  by (induction k) (simp_all add: polls_def is_provisioning_def)

lemma ensure_payload_indexes_calls:
  "\<exists>evs. snd (ensure_payload_indexes env cn t) = t @ evs \<and> list_all is_provisioning evs"
proof (cases "get_collection_r env (t @ [GetCollection cn])")
  case (Inl e)
  then have "snd (ensure_payload_indexes env cn t) = t @ [GetCollection cn]"
    by (simp add: ensure_payload_indexes_def qdrant_get_collection_def)
  then show ?thesis by (simp add: is_provisioning_def)
next
  case (Inr info)
  let ?t1 = "t @ [GetCollection cn]"
  let ?t2 = "?t1 @ [CreatePayloadIndex cn ''source'' Keyword]"
  show ?thesis
  proof (cases "payload_schema info ''source'' = Some Keyword")
    case True
    with Inr have "snd (ensure_payload_indexes env cn t) = t @ [GetCollection cn]"
      by (simp add: ensure_payload_indexes_def qdrant_get_collection_def required_def)
    then show ?thesis by (simp add: is_provisioning_def)
  next
    case False
    show ?thesis
    proof (cases "create_payload_index_r env ?t2")
      case (Inl e)
      with Inr False have "snd (ensure_payload_indexes env cn t) = t @ [GetCollection cn, CreatePayloadIndex cn ''source'' Keyword]"
        by (simp add: ensure_payload_indexes_def qdrant_get_collection_def required_def
            qdrant_create_payload_index_def)
      then show ?thesis by (simp add: is_provisioning_def)
    next
      case (Inr u)
      obtain r t' where p: "poll_index env cn ''source'' Keyword 10 ?t2 = (r, t')"
        by (cases "poll_index env cn ''source'' Keyword 10 ?t2")
      from poll_index_trace[OF p] obtain k where k: "t' = ?t2 @ polls cn k" by blast
      have "snd (ensure_payload_indexes env cn t) = t'"
        using \<open>get_collection_r env ?t1 = Inr info\<close> False Inr p
        by (simp add: ensure_payload_indexes_def qdrant_get_collection_def required_def
            qdrant_create_payload_index_def split: sum.splits)
      then have "snd (ensure_payload_indexes env cn t) =
          t @ ([GetCollection cn, CreatePayloadIndex cn ''source'' Keyword] @ polls cn k)"
        using k by simp
      moreover have "list_all is_provisioning
          ([GetCollection cn, CreatePayloadIndex cn ''source'' Keyword] @ polls cn k)"
        using polls_provisioning by (simp add: is_provisioning_def)
      ultimately show ?thesis by blast
    qed
  qed
qed

lemma provisioning_quiet:
  "list_all is_provisioning evs \<Longrightarrow>
     filter is_provider_call evs = [] \<and> filter is_upsert evs = []"
  by (induction evs)
    (auto simp: is_provisioning_def is_provider_call_def is_upsert_def split: call.splits)

lemma apply_calls_append: "apply_calls (xs @ ys) s = apply_calls ys (apply_calls xs s)"
  by (induction xs arbitrary: s) simp_all

lemma apply_calls_provisioning: "list_all is_provisioning evs \<Longrightarrow> apply_calls evs s = s"
  by (induction evs arbitrary: s) (auto simp: is_provisioning_def split: call.splits)

lemma embed_and_store_provision:
  "embed_and_store env chunks source cn t =
     (case provision env cn t of
        (Inl e, t0) \<Rightarrow> (Inl e, t0)
      | (Inr u, t0) \<Rightarrow>
          if chunks = [] then (Inr 0, t0) else store_batches env chunks source cn 0 0 t0)"
  by (simp add: embed_and_store_def provision_def split: prod.splits sum.splits)

lemma provision_calls:
  "\<exists>rest. snd (provision env cn t) = t @ GetCollections # rest \<and>
     filter is_provider_call rest = [] \<and> filter is_upsert rest = []"
proof (cases "get_collections_r env (t @ [GetCollections])")
  case (Inl e)
  then have "snd (provision env cn t) = t @ [GetCollections]"
    by (simp add: provision_def qdrant_get_collections_def)
  then show ?thesis by simp
next
  case (Inr names)
  let ?t1 = "t @ [GetCollections]"
  let ?t2 = "?t1 @ [CreateCollection cn 1024 Cosine]"
  consider (listed) "cn \<in> set names" | (failed) e where "cn \<notin> set names" "create_collection_r env ?t2 = Inl e"
    | (created) "cn \<notin> set names" "create_collection_r env ?t2 = Inr ()"
    by (cases "create_collection_r env ?t2") auto
  then show ?thesis
  proof cases
    case listed
    then have "snd (provision env cn t) = snd (ensure_payload_indexes env cn ?t1)"
      using Inr by (simp add: provision_def qdrant_get_collections_def)
    moreover obtain evs where "snd (ensure_payload_indexes env cn ?t1) = ?t1 @ evs" "list_all is_provisioning evs"
      using ensure_payload_indexes_calls by blast
    ultimately show ?thesis using provisioning_quiet[of evs] by simp
  next
    case failed
    then have "snd (provision env cn t) = ?t2"
      using Inr by (simp add: provision_def qdrant_get_collections_def qdrant_create_collection_def)
    then show ?thesis by (simp add: is_provider_call_def is_upsert_def)
  next
    case created
    then have "snd (provision env cn t) = snd (ensure_payload_indexes env cn ?t2)"
      using Inr by (simp add: provision_def qdrant_get_collections_def qdrant_create_collection_def)
    moreover obtain evs where "snd (ensure_payload_indexes env cn ?t2) = ?t2 @ evs" "list_all is_provisioning evs"
      using ensure_payload_indexes_calls by blast
    ultimately show ?thesis using provisioning_quiet[of evs]
      by (simp add: is_provider_call_def is_upsert_def)
  qed
qed

text \<open>
  Claim C3, as stated, fails: with no chunks \<^verbatim>\<open>embed_and_store\<close> returns 0, but only
  after it has listed the collections and read the collection's schema, two requests
  to the vector store.
\<close>

theorem embed_and_store_empty_makes_requests:
  "fst (embed_and_store env_ok [] ''a.pdf'' ''rag_alice'' []) = Inr 0 \<and>
   filter is_network_call (snd (embed_and_store env_ok [] ''a.pdf'' ''rag_alice'' [])) =
     [GetCollections, GetCollection ''rag_alice'']"
  by (simp add: embed_and_store_def qdrant_get_collections_def env_ok_def
      ensure_payload_indexes_def qdrant_get_collection_def required_def info_indexed_def
      is_network_call_def)

text \<open>
  Claim C3, amended.  Called with no chunks, \<^verbatim>\<open>embed_and_store\<close> first lists the
  collections, creates the collection when it is not listed and runs index
  provisioning; these are requests to the vector store.  When the listing, the creation
  or the provisioning fails, that error comes out and nothing follows; otherwise the
  call returns 0.  It makes no request to the embedding provider and no upsert.
\<close>

theorem embed_and_store_empty:
  "(\<exists>rest. snd (embed_and_store env [] source cn t) = t @ GetCollections # rest \<and>
           filter is_provider_call rest = [] \<and> filter is_upsert rest = []) \<and>
   (fst (embed_and_store env [] source cn t) = Inr 0 \<or>
    (\<exists>e. fst (embed_and_store env [] source cn t) = Inl e)) \<and>
   (\<forall>e. get_collections_r env (t @ [GetCollections]) = Inl e \<longrightarrow>
      embed_and_store env [] source cn t = (Inl e, t @ [GetCollections])) \<and>
   (\<forall>names e.
      get_collections_r env (t @ [GetCollections]) = Inr names \<and> cn \<notin> set names \<and>
      create_collection_r env (t @ [GetCollections, CreateCollection cn 1024 Cosine]) = Inl e \<longrightarrow>
      embed_and_store env [] source cn t =
        (Inl e, t @ [GetCollections, CreateCollection cn 1024 Cosine])) \<and>
   (\<forall>names e t3.
      get_collections_r env (t @ [GetCollections]) = Inr names \<and> cn \<in> set names \<and>
      ensure_payload_indexes env cn (t @ [GetCollections]) = (Inl e, t3) \<longrightarrow>
      embed_and_store env [] source cn t = (Inl e, t3)) \<and>
   (\<forall>names t3.
      get_collections_r env (t @ [GetCollections]) = Inr names \<and> cn \<in> set names \<and>
      ensure_payload_indexes env cn (t @ [GetCollections]) = (Inr (), t3) \<longrightarrow>
      embed_and_store env [] source cn t = (Inr 0, t3)) \<and>
   (\<forall>names e t3.
      get_collections_r env (t @ [GetCollections]) = Inr names \<and> cn \<notin> set names \<and>
      create_collection_r env (t @ [GetCollections, CreateCollection cn 1024 Cosine]) = Inr () \<and>
      ensure_payload_indexes env cn (t @ [GetCollections, CreateCollection cn 1024 Cosine])
        = (Inl e, t3) \<longrightarrow>
      embed_and_store env [] source cn t = (Inl e, t3)) \<and>
   (\<forall>names t3.
      get_collections_r env (t @ [GetCollections]) = Inr names \<and> cn \<notin> set names \<and>
      create_collection_r env (t @ [GetCollections, CreateCollection cn 1024 Cosine]) = Inr () \<and>
      ensure_payload_indexes env cn (t @ [GetCollections, CreateCollection cn 1024 Cosine])
        = (Inr (), t3) \<longrightarrow>
      embed_and_store env [] source cn t = (Inr 0, t3)) \<and>
   (\<forall>e t0. provision env cn t = (Inl e, t0) \<longrightarrow>
      embed_and_store env [] source cn t = (Inl e, t0)) \<and>
   (\<forall>t0. provision env cn t = (Inr (), t0) \<longrightarrow>
      embed_and_store env [] source cn t = (Inr 0, t0))"
proof -
  have "snd (embed_and_store env [] source cn t) = snd (provision env cn t)"
    by (simp add: embed_and_store_provision split: prod.splits sum.splits)
  then have calls: "\<exists>rest. snd (embed_and_store env [] source cn t) = t @ GetCollections # rest \<and>
           filter is_provider_call rest = [] \<and> filter is_upsert rest = []"
    using provision_calls[of env cn t] by simp
  have res: "fst (embed_and_store env [] source cn t) = Inr 0 \<or>
    (\<exists>e. fst (embed_and_store env [] source cn t) = Inl e)"
    by (auto simp: embed_and_store_provision split: prod.splits sum.splits)
  have paths: "(\<forall>e. get_collections_r env (t @ [GetCollections]) = Inl e \<longrightarrow>
      embed_and_store env [] source cn t = (Inl e, t @ [GetCollections])) \<and>
   (\<forall>names e.
      get_collections_r env (t @ [GetCollections]) = Inr names \<and> cn \<notin> set names \<and>
      create_collection_r env (t @ [GetCollections, CreateCollection cn 1024 Cosine]) = Inl e \<longrightarrow>
      embed_and_store env [] source cn t =
        (Inl e, t @ [GetCollections, CreateCollection cn 1024 Cosine])) \<and>
   (\<forall>names e t3.
      get_collections_r env (t @ [GetCollections]) = Inr names \<and> cn \<in> set names \<and>
      ensure_payload_indexes env cn (t @ [GetCollections]) = (Inl e, t3) \<longrightarrow>
      embed_and_store env [] source cn t = (Inl e, t3)) \<and>
   (\<forall>names t3.
      get_collections_r env (t @ [GetCollections]) = Inr names \<and> cn \<in> set names \<and>
      ensure_payload_indexes env cn (t @ [GetCollections]) = (Inr (), t3) \<longrightarrow>
      embed_and_store env [] source cn t = (Inr 0, t3)) \<and>
   (\<forall>names e t3.
      get_collections_r env (t @ [GetCollections]) = Inr names \<and> cn \<notin> set names \<and>
      create_collection_r env (t @ [GetCollections, CreateCollection cn 1024 Cosine]) = Inr () \<and>
      ensure_payload_indexes env cn (t @ [GetCollections, CreateCollection cn 1024 Cosine])
        = (Inl e, t3) \<longrightarrow>
      embed_and_store env [] source cn t = (Inl e, t3)) \<and>
   (\<forall>names t3.
      get_collections_r env (t @ [GetCollections]) = Inr names \<and> cn \<notin> set names \<and>
      create_collection_r env (t @ [GetCollections, CreateCollection cn 1024 Cosine]) = Inr () \<and>
      ensure_payload_indexes env cn (t @ [GetCollections, CreateCollection cn 1024 Cosine])
        = (Inr (), t3) \<longrightarrow>
      embed_and_store env [] source cn t = (Inr 0, t3))"
    by (simp add: embed_and_store_def qdrant_get_collections_def qdrant_create_collection_def)
  have prov: "(\<forall>e t0. provision env cn t = (Inl e, t0) \<longrightarrow>
      embed_and_store env [] source cn t = (Inl e, t0)) \<and>
   (\<forall>t0. provision env cn t = (Inr (), t0) \<longrightarrow>
      embed_and_store env [] source cn t = (Inr 0, t0))"
    by (simp add: embed_and_store_provision)
  show ?thesis using calls res paths prov by blast
qed

theorem embed_and_store_empty_witness:
  "provision env_ok ''rag_alice'' [] = (Inr (), [GetCollections, GetCollection ''rag_alice'']) \<and>
   embed_and_store env_ok [] ''a.pdf'' ''rag_alice'' [] =
     (Inr 0, [GetCollections, GetCollection ''rag_alice'']) \<and>
   embed_and_store env_ok [] ''a.pdf'' ''rag_bob'' [] =
     (Inr 0, [GetCollections, CreateCollection ''rag_bob'' 1024 Cosine, GetCollection ''rag_bob'']) \<and>
   embed_and_store env_store_down [] ''a.pdf'' ''rag_alice'' [] =
     (Inl (OtherException ''connection refused''), [GetCollections, GetCollection ''rag_alice'']) \<and>
   fst (embed_and_store env_never [] ''a.pdf'' ''rag_alice'' []) =
     Inl (RuntimeError ''Failed to confirm index for source after 10 attempts'')"
  using embed_and_store_empty[where env = env_ok and source = "''a.pdf''" and cn = "''rag_alice''" and t = "[]"]
        embed_and_store_empty[where env = env_ok and source = "''a.pdf''" and cn = "''rag_bob''" and t = "[]"]
        embed_and_store_empty[where env = env_store_down and source = "''a.pdf''" and cn = "''rag_alice''" and t = "[]"]
        embed_and_store_empty[where env = env_never and source = "''a.pdf''" and cn = "''rag_alice''" and t = "[]"]
  by (simp add: embed_and_store_def provision_def qdrant_get_collections_def env_ok_def
      env_store_down_def env_never_def qdrant_create_collection_def info_bare_def
      ensure_payload_indexes_def qdrant_get_collection_def required_def info_indexed_def
      qdrant_create_payload_index_def sleep_def eval_nat_numeral)

subsection \<open>Deletion\<close>

text \<open>
  Claim C7, as stated, fails: a listed collection does not always get its points
  deleted.  With an index that never shows up, \<^verbatim>\<open>delete_user_document\<close> ends in the
  \<^verbatim>\<open>RuntimeError\<close> of \<^verbatim>\<open>ensure_payload_indexes\<close> before any delete request, and the
  two points of \<^verbatim>\<open>a.pdf\<close> stay in the store.
\<close>

theorem delete_user_document_provisioning_failure:
  "fst (delete_user_document env_never ''rag_alice'' ''a.pdf'' []) =
     Inl (RuntimeError ''Failed to confirm index for source after 10 attempts'') \<and>
   filter is_delete (snd (delete_user_document env_never ''rag_alice'' ''a.pdf'' [])) = [] \<and>
   apply_calls (snd (delete_user_document env_never ''rag_alice'' ''a.pdf'' [])) store_ab = store_ab"
  by (simp add: delete_user_document_def qdrant_get_collections_def env_never_def env_ok_def
      ensure_payload_indexes_def qdrant_get_collection_def required_def info_bare_def
      qdrant_create_payload_index_def sleep_def is_delete_def eval_nat_numeral)

text \<open>
  Claim C7, amended.  When the listing lacks the collection, \<^verbatim>\<open>delete_user_document\<close>
  returns at once and requests nothing else.  A failure of the listing, or of index
  provisioning for a listed collection, comes out as it is, no delete request is sent
  and the stored points stay.  When the collection is listed and provisioned, it sends
  one delete request whose filter is \<^verbatim>\<open>source == filename\<close>; an error of that request
  comes out as it is; and when the store accepts the request, the collection keeps
  exactly its points whose payload \<^verbatim>\<open>source\<close> differs from the filename, every other
  collection being untouched.
\<close>

theorem delete_user_document_by_source:
  "(\<forall>e. get_collections_r env (t @ [GetCollections]) = Inl e \<longrightarrow>
      delete_user_document env cn filename t = (Inl e, t @ [GetCollections])) \<and>
   (\<forall>names. get_collections_r env (t @ [GetCollections]) = Inr names \<and> cn \<notin> set names \<longrightarrow>
      delete_user_document env cn filename t = (Inr (), t @ [GetCollections])) \<and>
   (\<forall>names e t2.
      get_collections_r env (t @ [GetCollections]) = Inr names \<and> cn \<in> set names \<and>
      ensure_payload_indexes env cn (t @ [GetCollections]) = (Inl e, t2) \<longrightarrow>
      delete_user_document env cn filename t = (Inl e, t2) \<and>
      filter is_delete (drop (length t) t2) = [] \<and>
      (\<forall>s. apply_calls (drop (length t) t2) s = s)) \<and>
   (\<forall>names t2.
      get_collections_r env (t @ [GetCollections]) = Inr names \<and> cn \<in> set names \<and>
      ensure_payload_indexes env cn (t @ [GetCollections]) = (Inr (), t2) \<longrightarrow>
      snd (delete_user_document env cn filename t) =
        t2 @ [Delete cn (Filter [FieldCondition ''source'' (MatchValue (PStr filename))])] \<and>
      filter is_delete (drop (length t) t2) = [] \<and>
      (\<forall>e. delete_r env (snd (delete_user_document env cn filename t)) = Inl e \<longrightarrow>
         fst (delete_user_document env cn filename t) = Inl e) \<and>
      (delete_r env (snd (delete_user_document env cn filename t)) = Inr () \<longrightarrow>
         fst (delete_user_document env cn filename t) = Inr () \<and>
         (\<forall>s stored. s cn = Some stored \<longrightarrow>
            apply_calls (drop (length t) (snd (delete_user_document env cn filename t))) s =
              s(cn \<mapsto> filter (\<lambda>p. payload p ''source'' \<noteq> Some (PStr filename)) stored))))"
proof -
  let ?d = "Delete cn (Filter [FieldCondition ''source'' (MatchValue (PStr filename))])"
  let ?run = "delete_user_document env cn filename t"
  have nolist: "?run = (Inl e, t @ [GetCollections])"
    if "get_collections_r env (t @ [GetCollections]) = Inl e" for e
    using that by (simp add: delete_user_document_def qdrant_get_collections_def)
  have absent: "?run = (Inr (), t @ [GetCollections])"
    if "get_collections_r env (t @ [GetCollections]) = Inr names \<and> cn \<notin> set names" for names
    using that by (simp add: delete_user_document_def qdrant_get_collections_def)
  have quiet: "filter is_delete (drop (length t) t2) = [] \<and>
      (\<forall>s. apply_calls (drop (length t) t2) s = s)"
    if en: "ensure_payload_indexes env cn (t @ [GetCollections]) = (r, t2)" for r t2
  proof -
    obtain evs where evs: "t2 = (t @ [GetCollections]) @ evs" "list_all is_provisioning evs"
      using ensure_payload_indexes_calls[of env cn "t @ [GetCollections]"] en by auto
    have "drop (length t) t2 = GetCollections # evs" using evs(1) by simp
    moreover have "filter is_delete evs = []"
      using evs(2) by (induction evs) (auto simp: is_provisioning_def is_delete_def split: call.splits)
    ultimately show ?thesis
      using evs(2) by (simp add: apply_calls_provisioning is_delete_def)
  qed
  have unprov: "?run = (Inl e, t2) \<and> filter is_delete (drop (length t) t2) = [] \<and>
      (\<forall>s. apply_calls (drop (length t) t2) s = s)"
    if h: "get_collections_r env (t @ [GetCollections]) = Inr names \<and> cn \<in> set names \<and>
      ensure_payload_indexes env cn (t @ [GetCollections]) = (Inl e, t2)" for names e t2
    using h quiet[of "Inl e" t2]
    by (simp add: delete_user_document_def qdrant_get_collections_def)
  have present:
    "snd ?run = t2 @ [?d] \<and>
     filter is_delete (drop (length t) t2) = [] \<and>
     (\<forall>e. delete_r env (snd ?run) = Inl e \<longrightarrow> fst ?run = Inl e) \<and>
     (delete_r env (snd ?run) = Inr () \<longrightarrow>
        fst ?run = Inr () \<and>
        (\<forall>s stored. s cn = Some stored \<longrightarrow>
           apply_calls (drop (length t) (snd ?run)) s =
             s(cn \<mapsto> filter (\<lambda>p. payload p ''source'' \<noteq> Some (PStr filename)) stored)))"
    if h: "get_collections_r env (t @ [GetCollections]) = Inr names \<and> cn \<in> set names \<and>
      ensure_payload_indexes env cn (t @ [GetCollections]) = (Inr (), t2)" for names t2
  proof -
    have run: "?run =
        (case delete_r env (t2 @ [?d]) of Inl e \<Rightarrow> Inl e | Inr u \<Rightarrow> Inr (), t2 @ [?d])"
      using h by (simp add: delete_user_document_def qdrant_get_collections_def
          qdrant_delete_def split: sum.splits)
    obtain evs where evs: "t2 = (t @ [GetCollections]) @ evs" "list_all is_provisioning evs"
      using ensure_payload_indexes_calls[of env cn "t @ [GetCollections]"] h by auto
    have new: "drop (length t) (snd ?run) = GetCollections # evs @ [?d]"
      using evs(1) by (simp add: run)
    have eff: "apply_calls (drop (length t) (snd ?run)) s =
        s(cn \<mapsto> filter (\<lambda>p. payload p ''source'' \<noteq> Some (PStr filename)) stored)"
      if "s cn = Some stored" for s :: store and stored
      unfolding new using that evs(2)
      by (simp add: apply_calls_append apply_calls_provisioning)
    show ?thesis using eff quiet[of "Inr ()" t2] h by (simp add: run)
  qed
  show ?thesis using nolist absent unprov present by blast
qed

theorem delete_user_document_by_source_witness:
  "delete_user_document env_ok ''rag_bob'' ''a.pdf'' [] = (Inr (), [GetCollections]) \<and>
   delete_user_document env_ok ''rag_alice'' ''a.pdf'' [] =
     (Inr (), [GetCollections, GetCollection ''rag_alice'',
               Delete ''rag_alice'' (Filter [FieldCondition ''source'' (MatchValue (PStr ''a.pdf''))])]) \<and>
   apply_calls (snd (delete_user_document env_ok ''rag_alice'' ''a.pdf'' [])) store_ab =
     [''rag_alice'' \<mapsto> [stored_point ''p2'' ''beta'' ''b.pdf'' 0]] \<and>
   fst (delete_user_document env_delete_fails ''rag_alice'' ''a.pdf'' []) =
     Inl (OtherException ''write timed out'') \<and>
   delete_user_document env_store_down ''rag_alice'' ''a.pdf'' [] =
     (Inl (OtherException ''connection refused''), [GetCollections, GetCollection ''rag_alice''])"
  using delete_user_document_by_source[where env = env_ok and t = "[]" and cn = "''rag_bob''" and filename = "''a.pdf''"]
        delete_user_document_by_source[where env = env_ok and t = "[]" and cn = "''rag_alice''" and filename = "''a.pdf''"]
        delete_user_document_by_source[where env = env_delete_fails and t = "[]" and cn = "''rag_alice''" and filename = "''a.pdf''"]
        delete_user_document_by_source[where env = env_store_down and t = "[]" and cn = "''rag_alice''" and filename = "''a.pdf''"]
  by (simp add: delete_user_document_def qdrant_get_collections_def env_ok_def
      env_delete_fails_def env_store_down_def qdrant_delete_def store_ab_def stored_point_def
      ensure_payload_indexes_def qdrant_get_collection_def required_def info_indexed_def)

subsection \<open>Ingesting in batches\<close>

lemma strip_retries_retries: "strip_retries (retries b ws @ xs) = strip_retries xs"
  by (induction ws) (simp_all add: retries_def)

lemma strip_retries_draws:
  "strip_retries (replicate m Uuid4 @ xs) = replicate m Uuid4 @ strip_retries xs"
  by (induction m) simp_all

lemma strip_retries_answered:
  "strip_retries (ContextualizedEmbed md inputs ity # replicate m Uuid4 @ Upsert cn ps # xs) =
     ContextualizedEmbed md inputs ity # replicate m Uuid4 @ Upsert cn ps # strip_retries xs"
  by (cases m) (simp_all add: strip_retries_draws)

lemma outline_draws: "outline (replicate m Uuid4 @ xs) = outline xs"
  by (induction m) simp_all

lemma batches_Nil [simp]: "batches [] = []"
  by (simp add: batches.simps)

lemma batches_concat: "concat (batches xs) = xs"
proof (induction xs rule: batches.induct)
  case (1 xs)
  then show ?case by (cases "xs = []") (simp_all add: batches.simps[of xs])
qed

lemma batches_sizes:
  "b \<in> set (batches xs) \<Longrightarrow> b \<noteq> [] \<and> length b \<le> SAFE_BATCH_SIZE"
proof (induction xs rule: batches.induct)
  case (1 xs)
  show ?case
  proof (cases "xs = []")
    case True
    with "1.prems" show ?thesis by simp
  next
    case False
    with "1.prems" have "b = take SAFE_BATCH_SIZE xs \<or> b \<in> set (batches (drop SAFE_BATCH_SIZE xs))"
      by (simp add: batches.simps[of xs])
    then show ?thesis using "1.IH"[OF False] False by (auto simp: SAFE_BATCH_SIZE_def)
  qed
qed

lemma make_points_spec:
  "make_points env source i j pairs t = (pts, t') \<Longrightarrow>
     t' = t @ replicate (length pairs) Uuid4 \<and>
     length pts = length pairs \<and>
     map payload pts =
       map (\<lambda>k. chunk_payload source (i + j + k) (snd (pairs ! k))) [0..<length pairs]"
proof (induction pairs arbitrary: j t pts t')
  case Nil
  then show ?case by simp
next
  case (Cons pr pairs)
  obtain emb chunk where pr: "pr = (emb, chunk)" by (cases pr)
  obtain ps t2 where rec: "make_points env source i (Suc j) pairs (t @ [Uuid4]) = (ps, t2)"
    by (cases "make_points env source i (Suc j) pairs (t @ [Uuid4])")
  from Cons.prems pr rec have pts: "pts = \<lparr>point_id = uuid4_r env (t @ [Uuid4]), vector = emb,
        payload = chunk_payload source (i + j) chunk\<rparr> # ps" and t': "t' = t2"
    by (simp_all add: uuid4_def chunk_payload_def Let_def)
  from Cons.IH[OF rec] have ih: "t2 = (t @ [Uuid4]) @ replicate (length pairs) Uuid4"
    "length ps = length pairs"
    "map payload ps = map (\<lambda>k. chunk_payload source (i + Suc j + k) (snd (pairs ! k))) [0..<length pairs]"
    by simp_all
  have "map (\<lambda>k. chunk_payload source (i + j + k) (snd ((pr # pairs) ! k))) [0..<length (pr # pairs)]
      = chunk_payload source (i + j) chunk # map (\<lambda>k. chunk_payload source (i + Suc j + k) (snd (pairs ! k))) [0..<length pairs]"
    by (simp add: pr upt_conv_Cons map_Suc_upt[symmetric] del: upt_Suc)
  then show ?case using ih pts t' by (simp add: replicate_append_same)
qed


lemma batches_eq_Nil [simp]: "batches xs = [] \<longleftrightarrow> xs = []"
  by (simp add: batches.simps[of xs])

lemma embed_batch_with_retry_first_answer:
  assumes "embed_r env (t @ [ContextualizedEmbed ''voyage-context-3'' [b] Document]) = Inr (vs # rest)"
  shows "embed_batch_with_retry env b t =
           (Inr (Some vs), t @ [ContextualizedEmbed ''voyage-context-3'' [b] Document])"
  using assms
  by (simp add: embed_batch_with_retry_def embed_retry_loop.simps[of env b 0 t] MAX_RETRIES_def
      embed_attempt_def contextualized_embed_def)

lemma store_batches_steps:
  assumes pa: "provider_answers env" and ua: "upserts_accepted env"
  shows "\<exists>evs. store_batches env chunks source cn i stored t =
                  (Inr (stored + (length chunks - i)), t @ evs) \<and>
               map step_of evs = batch_steps source cn i (batches (drop i chunks)) \<and>
               strip_retries evs = evs"
proof (induction "length chunks - i" arbitrary: i stored t rule: less_induct)
  case less
  show ?case
  proof (cases "i < length chunks")
    case False
    then have "store_batches env chunks source cn i stored t = (Inr stored, t)"
      by (simp add: store_batches.simps[of env chunks source cn i stored t])
    with False show ?thesis by simp
  next
    case True
    let ?b = "take SAFE_BATCH_SIZE (drop i chunks)"
    let ?ce = "ContextualizedEmbed ''voyage-context-3'' [?b] Document"
    let ?t1 = "t @ [?ce]"
    obtain vs rest where vs: "embed_r env ?t1 = Inr (vs # rest)" "length vs = length ?b"
      using pa unfolding provider_answers_def by blast
    have emb: "embed_batch_with_retry env ?b t = (Inr (Some vs), ?t1)"
      using embed_batch_with_retry_first_answer[OF vs(1)] .
    obtain pts t2 where mp: "make_points env source i 0 (zip vs ?b) ?t1 = (pts, t2)"
      by (cases "make_points env source i 0 (zip vs ?b) ?t1")
    from make_points_spec[OF mp] vs(2)
    have t2: "t2 = ?t1 @ replicate (length ?b) Uuid4"
      and pl: "map payload pts =
        map (\<lambda>k. chunk_payload source (i + 0 + k) (snd (zip vs ?b ! k))) [0..<length ?b]"
      by simp_all
    have pl': "map payload pts = map (\<lambda>j. chunk_payload source (i + j) (?b ! j)) [0..<length ?b]"
      unfolding pl using vs(2) by (intro map_cong) simp_all
    let ?t3 = "t2 @ [Upsert cn pts]"
    have up: "qdrant_upsert env cn pts t2 = (Inr (), ?t3)"
      using ua by (simp add: qdrant_upsert_def upserts_accepted_def)
    let ?more = "i + SAFE_BATCH_SIZE < length chunks"
    let ?t4 = "if ?more then sleep BASE_DELAY ?t3 else ?t3"
    have unfold: "store_batches env chunks source cn i stored t =
        store_batches env chunks source cn (i + SAFE_BATCH_SIZE) (stored + length ?b) ?t4"
      using True emb mp up
      by (subst store_batches.simps) (simp add: Let_def)
    have "length chunks - (i + SAFE_BATCH_SIZE) < length chunks - i"
      using True by (simp add: SAFE_BATCH_SIZE_def)
    from less[OF this, of "stored + length ?b" ?t4]
    obtain evs where evs:
      "store_batches env chunks source cn (i + SAFE_BATCH_SIZE) (stored + length ?b) ?t4 =
         (Inr (stored + length ?b + (length chunks - (i + SAFE_BATCH_SIZE))), ?t4 @ evs)"
      "map step_of evs =
         batch_steps source cn (i + SAFE_BATCH_SIZE) (batches (drop (i + SAFE_BATCH_SIZE) chunks))"
      "strip_retries evs = evs"
      by blast
    have count: "stored + length ?b + (length chunks - (i + SAFE_BATCH_SIZE)) =
        stored + (length chunks - i)"
      using True by (simp add: SAFE_BATCH_SIZE_def min_def)
    let ?bs = "batches (drop (i + SAFE_BATCH_SIZE) chunks)"
    have bt: "batches (drop i chunks) = ?b # ?bs"
      using True by (subst batches.simps) (simp add: add.commute)
    have more: "?more \<longleftrightarrow> ?bs \<noteq> []" by auto
    have full: "?more \<Longrightarrow> length ?b = SAFE_BATCH_SIZE" by simp
    let ?own = "[?ce] @ replicate (length ?b) Uuid4 @ [Upsert cn pts] @
                (if ?more then [Sleep BASE_DELAY] else [])"
    have t4: "?t4 = t @ ?own" by (simp add: t2 sleep_def)
    have steps_own: "map step_of ?own =
        EmbedStep ?b # replicate (length ?b) UuidStep @
        [UpsertStep cn (map (\<lambda>j. chunk_payload source (i + j) (?b ! j)) [0..<length ?b])] @
        (if ?more then [SleepStep BASE_DELAY] else [])"
      by (simp add: step_of_def pl')
    have split: "map step_of (?own @ evs) = map step_of ?own @ map step_of evs"
      by (rule map_append)
    have "map step_of (?own @ evs) = batch_steps source cn i (batches (drop i chunks))"
    proof (cases ?more)
      case True
      with more have ne: "?bs \<noteq> []" by simp
      show ?thesis
        unfolding split steps_own evs(2) bt
        using True ne full by simp
    next
      case False
      with more have e: "?bs = []" by simp
      show ?thesis
        unfolding split steps_own evs(2) bt
        using False e by simp
    qed
    moreover have "store_batches env chunks source cn i stored t =
        (Inr (stored + (length chunks - i)), t @ (?own @ evs))"
    proof -
      have e1: "?t4 @ evs = t @ (?own @ evs)" by (simp only: t4 append_assoc)
      show ?thesis by (simp only: unfold evs(1) count e1)
    qed
    moreover have "strip_retries (?own @ evs) = ?own @ evs"
      using evs(3) by (simp add: strip_retries_answered)
    ultimately show ?thesis by blast
  qed
qed


lemma batches_twenty:
  assumes "length xs = 20"
  shows "batches xs = [take 8 xs, take 8 (drop 8 xs), drop 16 xs]"
proof -
  have ne: "xs \<noteq> []" "drop 8 xs \<noteq> []" "drop 16 xs \<noteq> []" using assms by auto
  have "batches xs = take 8 xs # batches (drop 8 xs)"
    using ne(1) by (subst batches.simps) (simp add: SAFE_BATCH_SIZE_def)
  also have "batches (drop 8 xs) = take 8 (drop 8 xs) # batches (drop 16 xs)"
    using ne(2) by (subst batches.simps) (simp add: SAFE_BATCH_SIZE_def)
  also have "batches (drop 16 xs) = [drop 16 xs]"
    using ne(3) assms by (subst batches.simps) (simp add: SAFE_BATCH_SIZE_def)
  finally show ?thesis .
qed

text \<open>Facts about the loop that hold whatever the services answer.\<close>

lemma upserted_append: "upserted (xs @ ys) = upserted xs @ upserted ys"
  by (induction xs rule: upserted.induct) simp_all

lemma drawn_ids_append:
  "drawn_ids env h (xs @ ys) = drawn_ids env h xs @ drawn_ids env (h @ xs) ys"
  by (induction xs arbitrary: h) simp_all

lemma passive_facts:
  "list_all is_passive evs \<Longrightarrow>
     upserted evs = [] \<and> drawn_ids env h evs = [] \<and> list_all (adds_only cn) evs"
  by (induction evs arbitrary: h)
    (auto simp: is_passive_def adds_only_def split: call.splits)

lemma setup_facts:
  "list_all (is_setup cn) evs \<Longrightarrow>
     upserted evs = [] \<and> drawn_ids env h evs = [] \<and> list_all (adds_only cn) evs"
  by (induction evs arbitrary: h)
    (auto simp: is_setup_def adds_only_def split: call.splits)

lemma draws_facts:
  "upserted (replicate n Uuid4) = [] \<and> list_all (adds_only cn) (replicate n Uuid4)"
  by (induction n) (simp_all add: adds_only_def)

lemma adds_only_no_delete: "list_all (adds_only cn) evs \<Longrightarrow> filter is_delete evs = []"
  by (induction evs) (auto simp: adds_only_def is_delete_def split: call.splits)

lemma on_embed_error_calls:
  "on_embed_error e a t1 = (fl, t2) \<Longrightarrow>
     (\<forall>vs. fl \<noteq> Return vs) \<and> (t2 = t1 \<or> (\<exists>n. t2 = t1 @ [Sleep n]))"
  by (cases e) (auto simp: on_embed_error_def sleep_def split: if_splits)

lemma embed_attempt_calls:
  assumes "embed_attempt env b a t = (fl, t1)"
  shows "\<exists>evs. t1 = t @ evs \<and> list_all is_passive evs \<and>
       (\<forall>vs. fl = Return vs \<longrightarrow>
          (\<exists>rest. embed_r env (t @ [ContextualizedEmbed ''voyage-context-3'' [b] Document])
                     = Inr (vs # rest)))"
proof -
  let ?ce = "ContextualizedEmbed ''voyage-context-3'' [b] Document"
  consider (err) e where "embed_r env (t @ [?ce]) = Inl e"
    | (empty) "embed_r env (t @ [?ce]) = Inr []"
    | (ans) vs rest where "embed_r env (t @ [?ce]) = Inr (vs # rest)"
    by (cases "embed_r env (t @ [?ce])"; cases "projr (embed_r env (t @ [?ce]))") auto
  then show ?thesis
  proof cases
    case err
    with assms have "on_embed_error e a (t @ [?ce]) = (fl, t1)"
      by (simp add: embed_attempt_def contextualized_embed_def)
    from on_embed_error_calls[OF this] show ?thesis
      by (auto simp: is_passive_def)
  next
    case empty
    with assms have
      "on_embed_error (IndexError ''list index out of range'') a (t @ [?ce]) = (fl, t1)"
      by (simp add: embed_attempt_def contextualized_embed_def)
    from on_embed_error_calls[OF this] show ?thesis
      by (auto simp: is_passive_def)
  next
    case ans
    with assms have "fl = Return vs" "t1 = t @ [?ce]"
      by (simp_all add: embed_attempt_def contextualized_embed_def)
    with ans show ?thesis by (auto simp: is_passive_def)
  qed
qed

lemma embed_retry_loop_calls:
  "embed_retry_loop env b a t = (r, t') \<Longrightarrow>
     \<exists>evs. t' = t @ evs \<and> list_all is_passive evs \<and>
       (\<forall>vs. r = Inr (Some vs) \<longrightarrow>
          (\<exists>h rest. embed_r env (h @ [ContextualizedEmbed ''voyage-context-3'' [b] Document])
                       = Inr (vs # rest)))"
proof (induction "MAX_RETRIES - a" arbitrary: a t rule: less_induct)
  case less
  show ?case
  proof (cases "a < MAX_RETRIES")
    case False
    with less.prems have "r = Inr None" "t' = t"
      by (simp_all add: embed_retry_loop.simps[of env b a t])
    then show ?thesis by simp
  next
    case True
    obtain fl t1 where at: "embed_attempt env b a t = (fl, t1)"
      by (cases "embed_attempt env b a t")
    from embed_attempt_calls[OF at] obtain ev1 where ev1: "t1 = t @ ev1" "list_all is_passive ev1"
      and ret: "\<forall>vs. fl = Return vs \<longrightarrow>
          (\<exists>rest. embed_r env (t @ [ContextualizedEmbed ''voyage-context-3'' [b] Document])
                     = Inr (vs # rest))" by blast
    show ?thesis
    proof (cases fl)
      case (Return vs)
      with less.prems True at have "r = Inr (Some vs)" "t' = t1"
        by (simp_all add: embed_retry_loop.simps[of env b a t])
      then show ?thesis using ev1 ret Return by blast
    next
      case (Raise e)
      with less.prems True at have "r = Inl e" "t' = t1"
        by (simp_all add: embed_retry_loop.simps[of env b a t])
      then show ?thesis using ev1 by auto
    next
      case Continue
      with less.prems True at have rec: "embed_retry_loop env b (a + 1) t1 = (r, t')"
        by (simp add: embed_retry_loop.simps[of env b a t])
      have "MAX_RETRIES - (a + 1) < MAX_RETRIES - a" using True by simp
      from less.hyps[OF this rec] obtain ev2 where ev2: "t' = t1 @ ev2" "list_all is_passive ev2"
        and r2: "\<forall>vs. r = Inr (Some vs) \<longrightarrow>
          (\<exists>h rest. embed_r env (h @ [ContextualizedEmbed ''voyage-context-3'' [b] Document])
                       = Inr (vs # rest))" by blast
      have "t' = t @ (ev1 @ ev2)" "list_all is_passive (ev1 @ ev2)"
        using ev1 ev2 by simp_all
      then show ?thesis using r2 by blast
    qed
  qed
qed

lemma make_points_ids:
  "make_points env source i j pairs t = (pts, t') \<Longrightarrow>
     map point_id pts = drawn_ids env t (replicate (length pairs) Uuid4) \<and>
     (\<forall>p\<in>set pts. payload p ''source'' = Some (PStr source))"
proof (induction pairs arbitrary: j t pts t')
  case Nil
  then show ?case by simp
next
  case (Cons pr pairs)
  obtain emb chunk where pr: "pr = (emb, chunk)" by (cases pr)
  obtain ps t2 where rec: "make_points env source i (Suc j) pairs (t @ [Uuid4]) = (ps, t2)"
    by (cases "make_points env source i (Suc j) pairs (t @ [Uuid4])")
  from Cons.prems pr rec have pts: "pts = \<lparr>point_id = uuid4_r env (t @ [Uuid4]), vector = emb,
        payload = chunk_payload source (i + j) chunk\<rparr> # ps"
    by (simp_all add: uuid4_def chunk_payload_def Let_def)
  from Cons.IH[OF rec] show ?case unfolding pts by (simp add: chunk_payload_def)
qed


lemma chunk_payloads_shift:
  assumes "i + n \<le> length chunks"
  shows "map (\<lambda>k. chunk_payload source (i + k) (take m (drop i chunks) ! k)) [0..<min m n] =
         map (\<lambda>k. chunk_payload source k (chunks ! k)) [i..<i + min m n]"
proof -
  have "map (\<lambda>k. chunk_payload source (i + k) (take m (drop i chunks) ! k)) [0..<min m n] =
        map (\<lambda>k. chunk_payload source (k + i) (chunks ! (k + i))) [0..<min m n]"
    using assms by (intro map_cong) (simp_all add: add.commute)
  also have "\<dots> = map (\<lambda>k. chunk_payload source k (chunks ! k))
                      (map (\<lambda>k. k + i) [0..<min m n])"
    by (simp add: o_def)
  also have "\<dots> = map (\<lambda>k. chunk_payload source k (chunks ! k)) [i..<min m n + i]"
    by (simp only: map_add_upt)
  finally show ?thesis by (simp add: add.commute)
qed

lemma store_batches_adds:
  "store_batches env chunks source cn i stored t = (Inr n, t') \<Longrightarrow>
   n = stored + (length chunks - i) \<and>
   (\<exists>evs. t' = t @ evs \<and> list_all (adds_only cn) evs \<and>
     map point_id (upserted evs) = drawn_ids env t evs \<and>
     (\<forall>p\<in>set (upserted evs). payload p ''source'' = Some (PStr source)) \<and>
     (one_vector_per_text env \<longrightarrow>
        map payload (upserted evs) =
          map (\<lambda>k. chunk_payload source k (chunks ! k)) [i..<length chunks]))"
proof (induction "length chunks - i" arbitrary: i stored t rule: less_induct)
  case less
  show ?case
  proof (cases "i < length chunks")
    case False
    with less.prems have "t' = t" "n = stored"
      by (simp_all add: store_batches.simps[of env chunks source cn i stored t])
    with False show ?thesis by simp
  next
    case True
    let ?b = "take SAFE_BATCH_SIZE (drop i chunks)"
    obtain r t1 where emb: "embed_batch_with_retry env ?b t = (r, t1)"
      by (cases "embed_batch_with_retry env ?b t")
    have "\<exists>vs. r = Inr (Some vs)"
    proof (cases r)
      case (Inl e)
      with less.prems True emb show ?thesis
        by (simp add: store_batches.simps[of env chunks source cn i stored t] Let_def)
    next
      case (Inr o1)
      with less.prems True emb show ?thesis
        by (cases o1)
          (simp_all add: store_batches.simps[of env chunks source cn i stored t] Let_def)
    qed
    then obtain vs where r: "r = Inr (Some vs)" by blast
    from embed_retry_loop_calls[OF emb[unfolded embed_batch_with_retry_def]] r
    obtain ev1 h rest where ev1: "t1 = t @ ev1" "list_all is_passive ev1"
      and ans: "embed_r env (h @ [ContextualizedEmbed ''voyage-context-3'' [?b] Document])
                  = Inr (vs # rest)" by blast
    obtain pts t2 where mp: "make_points env source i 0 (zip vs ?b) t1 = (pts, t2)"
      by (cases "make_points env source i 0 (zip vs ?b) t1")
    let ?m = "length (zip vs ?b)"
    from make_points_spec[OF mp] have t2: "t2 = t1 @ replicate ?m Uuid4"
      and pl: "map payload pts =
        map (\<lambda>k. chunk_payload source (i + 0 + k) (snd (zip vs ?b ! k))) [0..<?m]"
      by simp_all
    from make_points_ids[OF mp] have ids: "map point_id pts = drawn_ids env t1 (replicate ?m Uuid4)"
      and src: "\<forall>p\<in>set pts. payload p ''source'' = Some (PStr source)" by simp_all
    let ?t3 = "t2 @ [Upsert cn pts]"
    let ?more = "i + SAFE_BATCH_SIZE < length chunks"
    let ?t4 = "if ?more then sleep BASE_DELAY ?t3 else ?t3"
    have rec: "store_batches env chunks source cn (i + SAFE_BATCH_SIZE) (stored + length ?b) ?t4
        = (Inr n, t')"
      using less.prems True emb r mp
      by (cases "upsert_r env ?t3")
        (simp_all add: store_batches.simps[of env chunks source cn i stored t] Let_def
          qdrant_upsert_def)
    have "length chunks - (i + SAFE_BATCH_SIZE) < length chunks - i"
      using True by (simp add: SAFE_BATCH_SIZE_def)
    from less.hyps[OF this rec]
    have n: "n = stored + length ?b + (length chunks - (i + SAFE_BATCH_SIZE))" by blast
    have count: "n = stored + (length chunks - i)"
      using True unfolding n by (simp add: SAFE_BATCH_SIZE_def min_def)
    from less.hyps[OF \<open>length chunks - (i + SAFE_BATCH_SIZE) < length chunks - i\<close> rec]
    obtain ev2 where ev2: "t' = ?t4 @ ev2"
      "list_all (adds_only cn) ev2"
      "map point_id (upserted ev2) = drawn_ids env ?t4 ev2"
      "\<forall>p\<in>set (upserted ev2). payload p ''source'' = Some (PStr source)"
      "one_vector_per_text env \<longrightarrow>
        map payload (upserted ev2) =
          map (\<lambda>k. chunk_payload source k (chunks ! k)) [i + SAFE_BATCH_SIZE..<length chunks]"
      by blast
    let ?pause = "if ?more then [Sleep BASE_DELAY] else []"
    let ?own = "ev1 @ replicate ?m Uuid4 @ [Upsert cn pts] @ ?pause"
    have t4: "?t4 = t @ ?own" by (simp add: ev1(1) t2 sleep_def)
    have passive_pause: "list_all is_passive ?pause" by (simp add: is_passive_def)
    have up_own: "upserted ?own = pts"
      using passive_facts[OF ev1(2)] passive_facts[OF passive_pause] draws_facts
      by (simp add: upserted_append)
    have adds_own: "list_all (adds_only cn) ?own"
      using passive_facts[OF ev1(2), of env t cn] passive_facts[OF passive_pause, of env t cn]
        draws_facts[of ?m cn]
      by (simp add: adds_only_def)
    have drawn_own: "drawn_ids env t ?own = map point_id pts"
      using passive_facts[OF ev1(2), of env t cn]
        passive_facts[OF passive_pause, of env "t2 @ [Upsert cn pts]" cn]
      by (simp add: drawn_ids_append ids ev1(1) t2)
    have e1: "t' = t @ (?own @ ev2)" using ev2(1) by (simp only: t4 append_assoc)
    have e2: "list_all (adds_only cn) (?own @ ev2)" using adds_own ev2(2) by simp
    have up_all: "upserted (?own @ ev2) = pts @ upserted ev2"
      using upserted_append[of ?own ev2] by (simp only: up_own)
    have e3: "map point_id (upserted (?own @ ev2)) = drawn_ids env t (?own @ ev2)"
    proof -
      have "map point_id (upserted (?own @ ev2)) = map point_id pts @ map point_id (upserted ev2)"
        by (simp only: up_all map_append)
      also have "\<dots> = drawn_ids env t ?own @ drawn_ids env ?t4 ev2"
        by (simp only: drawn_own ev2(3))
      also have "\<dots> = drawn_ids env t ?own @ drawn_ids env (t @ ?own) ev2"
        by (simp only: t4)
      also have "\<dots> = drawn_ids env t (?own @ ev2)"
        by (rule drawn_ids_append[symmetric])
      finally show ?thesis .
    qed
    have e4: "\<forall>p\<in>set (upserted (?own @ ev2)). payload p ''source'' = Some (PStr source)"
      using src ev2(4) unfolding up_all by auto
    have e5: "map payload (upserted (?own @ ev2)) =
          map (\<lambda>k. chunk_payload source k (chunks ! k)) [i..<length chunks]"
      if wf: "one_vector_per_text env"
    proof -
      have lv: "length vs = length ?b" using wf ans unfolding one_vector_per_text_def by blast
      have lb: "length ?b = min SAFE_BATCH_SIZE (length chunks - i)" by simp
      have m: "?m = length ?b" using lv by simp
      have "map payload pts = map (\<lambda>k. chunk_payload source (i + k) (?b ! k)) [0..<length ?b]"
        unfolding pl m using lv by (intro map_cong) simp_all
      also have "\<dots> = map (\<lambda>k. chunk_payload source k (chunks ! k)) [i..<i + length ?b]"
        unfolding lb using chunk_payloads_shift[of i "length chunks - i" chunks source SAFE_BATCH_SIZE] True
        by simp
      finally have p1: "map payload pts =
          map (\<lambda>k. chunk_payload source k (chunks ! k)) [i..<i + length ?b]" .
      have p2: "map payload (upserted ev2) =
          map (\<lambda>k. chunk_payload source k (chunks ! k)) [i + SAFE_BATCH_SIZE..<length chunks]"
        using ev2(5) wf by simp
      have "[i..<length chunks] = [i..<i + length ?b] @ [i + SAFE_BATCH_SIZE..<length chunks]"
      proof (cases ?more)
        case True
        then have lb8: "length ?b = SAFE_BATCH_SIZE" by simp
        define k where "k = length chunks - (i + SAFE_BATCH_SIZE)"
        have k: "(i + SAFE_BATCH_SIZE) + k = length chunks"
          using True by (simp add: k_def)
        have "[i..<(i + SAFE_BATCH_SIZE) + k] =
            [i..<i + SAFE_BATCH_SIZE] @ [i + SAFE_BATCH_SIZE..<(i + SAFE_BATCH_SIZE) + k]"
          by (rule upt_add_eq_append) simp
        then show ?thesis by (simp only: lb8 k)
      next
        case False
        then have "i + length ?b = length chunks" "[i + SAFE_BATCH_SIZE..<length chunks] = []"
          using \<open>i < length chunks\<close> by (simp_all add: min_def)
        then show ?thesis by simp
      qed
      then show ?thesis
        by (simp only: up_all map_append p1 p2)
    qed
    show ?thesis using count e1 e2 e3 e4 e5 by blast
  qed
qed


lemma on_embed_error_continue:
  "on_embed_error e a t1 = (Continue, t2) \<Longrightarrow> \<exists>w. t2 = t1 @ [Sleep w]"
  by (cases e) (auto simp: on_embed_error_def sleep_def split: if_splits)

lemma embed_attempt_shape:
  assumes "embed_attempt env b a t = (fl, t1)"
  shows "(\<forall>vs. fl = Return vs \<longrightarrow>
            t1 = t @ [ContextualizedEmbed ''voyage-context-3'' [b] Document] \<and>
            (\<exists>rest. embed_r env t1 = Inr (vs # rest))) \<and>
         (fl = Continue \<longrightarrow>
            (\<exists>w. t1 = t @ [ContextualizedEmbed ''voyage-context-3'' [b] Document, Sleep w]))"
proof -
  let ?ce = "ContextualizedEmbed ''voyage-context-3'' [b] Document"
  consider (err) e where "embed_r env (t @ [?ce]) = Inl e"
    | (empty) "embed_r env (t @ [?ce]) = Inr []"
    | (ans) vs rest where "embed_r env (t @ [?ce]) = Inr (vs # rest)"
    by (cases "embed_r env (t @ [?ce])"; cases "projr (embed_r env (t @ [?ce]))") auto
  then show ?thesis
  proof cases
    case err
    with assms have oe: "on_embed_error e a (t @ [?ce]) = (fl, t1)"
      by (simp add: embed_attempt_def contextualized_embed_def)
    from on_embed_error_calls[OF oe] on_embed_error_continue[of e a "t @ [?ce]" t1] oe
    show ?thesis by auto
  next
    case empty
    with assms have oe:
      "on_embed_error (IndexError ''list index out of range'') a (t @ [?ce]) = (fl, t1)"
      by (simp add: embed_attempt_def contextualized_embed_def)
    from on_embed_error_calls[OF oe]
      on_embed_error_continue[of "IndexError ''list index out of range''" a "t @ [?ce]" t1] oe
    show ?thesis by auto
  next
    case ans
    with assms have "fl = Return vs" "t1 = t @ [?ce]"
      by (simp_all add: embed_attempt_def contextualized_embed_def)
    with ans show ?thesis by auto
  qed
qed

lemma embed_retry_loop_attempts:
  "embed_retry_loop env b a t = (Inr (Some vs), t') \<Longrightarrow>
     \<exists>ws rest. t' = t @ retries b ws @ [ContextualizedEmbed ''voyage-context-3'' [b] Document] \<and>
       embed_r env t' = Inr (vs # rest)"
proof (induction "MAX_RETRIES - a" arbitrary: a t rule: less_induct)
  case less
  show ?case
  proof (cases "a < MAX_RETRIES")
    case False
    with less.prems show ?thesis
      by (simp add: embed_retry_loop.simps[of env b a t])
  next
    case True
    obtain fl t1 where at: "embed_attempt env b a t = (fl, t1)"
      by (cases "embed_attempt env b a t")
    note sh = embed_attempt_shape[OF at]
    show ?thesis
    proof (cases fl)
      case (Return vs')
      with less.prems True at have "vs' = vs" "t' = t1"
        by (simp_all add: embed_retry_loop.simps[of env b a t])
      with sh Return have "t' = t @ retries b [] @ [ContextualizedEmbed ''voyage-context-3'' [b] Document]"
        "\<exists>rest. embed_r env t' = Inr (vs # rest)"
        by (auto simp: retries_def)
      then show ?thesis by blast
    next
      case (Raise e)
      with less.prems True at show ?thesis
        by (simp add: embed_retry_loop.simps[of env b a t])
    next
      case Continue
      with less.prems True at have rec: "embed_retry_loop env b (a + 1) t1 = (Inr (Some vs), t')"
        by (simp add: embed_retry_loop.simps[of env b a t])
      from sh Continue obtain w where w:
        "t1 = t @ [ContextualizedEmbed ''voyage-context-3'' [b] Document, Sleep w]" by blast
      have "MAX_RETRIES - (a + 1) < MAX_RETRIES - a" using True by simp
      from less.hyps[OF this rec] obtain ws rest where ih:
        "t' = t1 @ retries b ws @ [ContextualizedEmbed ''voyage-context-3'' [b] Document]"
        "embed_r env t' = Inr (vs # rest)" by blast
      have "t' = t @ retries b (w # ws) @ [ContextualizedEmbed ''voyage-context-3'' [b] Document]"
        using ih(1) w by (simp add: retries_def)
      with ih(2) show ?thesis by blast
    qed
  qed
qed


lemma store_batches_outline:
  "store_batches env chunks source cn i stored t = (Inr n, t') \<Longrightarrow>
   \<exists>evs. t' = t @ evs \<and>
     outline (strip_retries evs) = batch_outline cn (batches (drop i chunks))"
proof (induction "length chunks - i" arbitrary: i stored t rule: less_induct)
  case less
  show ?case
  proof (cases "i < length chunks")
    case False
    with less.prems have "t' = t"
      by (simp add: store_batches.simps[of env chunks source cn i stored t])
    with False show ?thesis by simp
  next
    case True
    let ?b = "take SAFE_BATCH_SIZE (drop i chunks)"
    let ?ce = "ContextualizedEmbed ''voyage-context-3'' [?b] Document"
    obtain r t1 where emb: "embed_batch_with_retry env ?b t = (r, t1)"
      by (cases "embed_batch_with_retry env ?b t")
    have "\<exists>vs. r = Inr (Some vs)"
    proof (cases r)
      case (Inl e)
      with less.prems True emb show ?thesis
        by (simp add: store_batches.simps[of env chunks source cn i stored t] Let_def)
    next
      case (Inr o1)
      with less.prems True emb show ?thesis
        by (cases o1)
          (simp_all add: store_batches.simps[of env chunks source cn i stored t] Let_def)
    qed
    then obtain vs where r: "r = Inr (Some vs)" by blast
    from embed_retry_loop_attempts[OF emb[unfolded embed_batch_with_retry_def r]]
    obtain ws where t1: "t1 = t @ retries ?b ws @ [?ce]" by blast
    obtain pts t2 where mp: "make_points env source i 0 (zip vs ?b) t1 = (pts, t2)"
      by (cases "make_points env source i 0 (zip vs ?b) t1")
    let ?m = "length (zip vs ?b)"
    from make_points_spec[OF mp] have t2: "t2 = t1 @ replicate ?m Uuid4" by simp
    let ?t3 = "t2 @ [Upsert cn pts]"
    let ?more = "i + SAFE_BATCH_SIZE < length chunks"
    let ?t4 = "if ?more then sleep BASE_DELAY ?t3 else ?t3"
    have rec: "store_batches env chunks source cn (i + SAFE_BATCH_SIZE) (stored + length ?b) ?t4
        = (Inr n, t')"
      using less.prems True emb r mp
      by (cases "upsert_r env ?t3")
        (simp_all add: store_batches.simps[of env chunks source cn i stored t] Let_def
          qdrant_upsert_def)
    have "length chunks - (i + SAFE_BATCH_SIZE) < length chunks - i"
      using True by (simp add: SAFE_BATCH_SIZE_def)
    from less.hyps[OF this rec] obtain ev2 where ev2: "t' = ?t4 @ ev2"
      "outline (strip_retries ev2) =
         batch_outline cn (batches (drop (i + SAFE_BATCH_SIZE) chunks))"
      by blast
    let ?bs = "batches (drop (i + SAFE_BATCH_SIZE) chunks)"
    have bt: "batches (drop i chunks) = ?b # ?bs"
      using True by (subst batches.simps) (simp add: add.commute)
    have more: "?more \<longleftrightarrow> ?bs \<noteq> []" by auto
    let ?pause = "if ?more then [Sleep BASE_DELAY] else []"
    let ?evs = "retries ?b ws @ ?ce # replicate ?m Uuid4 @ Upsert cn pts # ?pause @ ev2"
    have e1: "t' = t @ ?evs" using ev2(1) by (simp add: t1 t2 sleep_def)
    have "strip_retries ?evs =
        ?ce # replicate ?m Uuid4 @ Upsert cn pts # ?pause @ strip_retries ev2"
      by (simp add: strip_retries_retries strip_retries_answered)
    then have "outline (strip_retries ?evs) =
        EmbedRequest ?b # UpsertRequest cn #
        (if ?more then [Pause BASE_DELAY] else []) @ outline (strip_retries ev2)"
      by (simp add: outline_draws)
    also have "\<dots> = batch_outline cn (batches (drop i chunks))"
      unfolding bt ev2(2) using more by simp
    finally show ?thesis using e1 by blast
  qed
qed

lemma embed_and_store_outline:
  assumes "embed_and_store env chunks source cn t = (Inr n, t')"
  shows "\<exists>evs. t' = snd (provision env cn t) @ evs \<and>
           outline (strip_retries evs) = batch_outline cn (batches chunks)"
proof -
  obtain r0 t0 where prov: "provision env cn t = (r0, t0)" by (cases "provision env cn t")
  from assms prov have r0: "r0 = Inr ()"
    by (cases r0) (simp_all add: embed_and_store_provision)
  show ?thesis
  proof (cases "chunks = []")
    case True
    with assms prov r0 have "t' = t0" by (simp add: embed_and_store_provision)
    with True prov show ?thesis by simp
  next
    case False
    with assms prov r0 have "store_batches env chunks source cn 0 0 t0 = (Inr n, t')"
      by (simp add: embed_and_store_provision)
    from store_batches_outline[OF this] prov show ?thesis by simp
  qed
qed

text \<open>
  Claim C5, as stated, fails: a successful ingestion may send more than one embedding
  request for a batch and sleep although there is a single batch.  When the provider
  rejects the first request with a rate-limit error, the ingestion of two chunks sends
  two requests for the one batch, with a sleep of 20 seconds between them, and returns 2.
\<close>

theorem embed_and_store_retry_adds_requests:
  "fst (embed_and_store env_retry_once [''alpha'', ''beta''] ''a.pdf'' ''rag_alice'' []) = Inr 2 \<and>
   drop 2 (snd (embed_and_store env_retry_once [''alpha'', ''beta''] ''a.pdf'' ''rag_alice'' [])) =
     [ContextualizedEmbed ''voyage-context-3'' [[''alpha'', ''beta'']] Document, Sleep 20,
      ContextualizedEmbed ''voyage-context-3'' [[''alpha'', ''beta'']] Document, Uuid4, Uuid4,
      Upsert ''rag_alice''
        [stored_point ''uuuuuu'' ''alpha'' ''a.pdf'' 0, stored_point ''uuuuuuu'' ''beta'' ''a.pdf'' 1]]"
  by (simp add: embed_and_store_def qdrant_get_collections_def env_retry_once_def env_ok_def
      ensure_payload_indexes_def qdrant_get_collection_def required_def info_indexed_def
      store_batches.simps embed_batch_with_retry_def embed_retry_loop.simps
      embed_attempt_def contextualized_embed_def on_embed_error_def is_rate_limit_example
      MAX_RETRIES_def SAFE_BATCH_SIZE_def
      BASE_DELAY_def uuid4_def qdrant_upsert_def sleep_def stored_point_def Let_def)

text \<open>
  Claim C5, amended.  Every run of \<^verbatim>\<open>embed_and_store\<close> that returns, returns the
  number of chunks.  The batches are the consecutive pieces of at most 8 chunks, in the
  order of the chunks.  In every run that returns, once each embedding request that is
  directly followed by a sleep (a failed attempt that is retried) is left out together
  with that sleep, the requests after the set-up are, batch by batch: one embedding
  request for the batch, one upsert, and a sleep of \<open>BASE_DELAY\<close> seconds unless the
  batch is the last; for 20 chunks three embedding requests of 8, 8 and 4 texts, three
  upserts and two sleeps.  When the provider answers every request at once with one
  vector per text and the store accepts every upsert, nothing is retried and this is
  the whole trace after the set-up, with one identifier drawn per chunk and each
  upsert holding the chunks of its batch with their positions.
\<close>

theorem embed_and_store_batches:
  "(\<forall>n t'. embed_and_store env chunks source cn t = (Inr n, t') \<longrightarrow>
      n = length chunks \<and>
      (\<exists>evs. t' = snd (provision env cn t) @ evs \<and>
         outline (strip_retries evs) = batch_outline cn (batches chunks) \<and>
         (length chunks = 20 \<longrightarrow>
            (\<exists>b1 b2 b3.
               chunks = b1 @ b2 @ b3 \<and> length b1 = 8 \<and> length b2 = 8 \<and> length b3 = 4 \<and>
               outline (strip_retries evs) =
                 [EmbedRequest b1, UpsertRequest cn, Pause 20,
                  EmbedRequest b2, UpsertRequest cn, Pause 20,
                  EmbedRequest b3, UpsertRequest cn])))) \<and>
   concat (batches chunks) = chunks \<and>
   (\<forall>b\<in>set (batches chunks). b \<noteq> [] \<and> length b \<le> 8) \<and>
   (\<forall>t0. chunks \<noteq> [] \<and> provision env cn t = (Inr (), t0) \<and>
         provider_answers env \<and> upserts_accepted env \<longrightarrow>
      (\<exists>evs. embed_and_store env chunks source cn t = (Inr (length chunks), t0 @ evs) \<and>
         strip_retries evs = evs \<and>
         map step_of evs = batch_steps source cn 0 (batches chunks) \<and>
         (length chunks = 20 \<longrightarrow>
            (\<exists>b1 b2 b3 p1 p2 p3.
               chunks = b1 @ b2 @ b3 \<and> length b1 = 8 \<and> length b2 = 8 \<and> length b3 = 4 \<and>
               map step_of evs =
                 [EmbedStep b1] @ replicate 8 UuidStep @ [UpsertStep cn p1, SleepStep 20] @
                 [EmbedStep b2] @ replicate 8 UuidStep @ [UpsertStep cn p2, SleepStep 20] @
                 [EmbedStep b3] @ replicate 4 UuidStep @ [UpsertStep cn p3]))))"
proof -
  have sizes: "\<forall>b\<in>set (batches chunks). b \<noteq> [] \<and> length b \<le> 8"
    using batches_sizes[of _ chunks] by (auto simp: SAFE_BATCH_SIZE_def)
  have cat20: "batches chunks = [take 8 chunks, take 8 (drop 8 chunks), drop 16 chunks] \<and>
      chunks = take 8 chunks @ take 8 (drop 8 chunks) @ drop 16 chunks \<and>
      length (take 8 chunks) = 8 \<and> length (take 8 (drop 8 chunks)) = 8 \<and>
      length (drop 16 chunks) = 4"
    if len: "length chunks = 20"
  proof -
    have bt: "batches chunks = [take 8 chunks, take 8 (drop 8 chunks), drop 16 chunks]"
      using batches_twenty[OF len] .
    have "chunks = take 8 chunks @ take 8 (drop 8 chunks) @ drop 16 chunks"
      using batches_concat[of chunks] unfolding bt by simp
    with bt len show ?thesis by simp
  qed
  have every: "n = length chunks \<and>
      (\<exists>evs. t' = snd (provision env cn t) @ evs \<and>
         outline (strip_retries evs) = batch_outline cn (batches chunks) \<and>
         (length chunks = 20 \<longrightarrow>
            (\<exists>b1 b2 b3.
               chunks = b1 @ b2 @ b3 \<and> length b1 = 8 \<and> length b2 = 8 \<and> length b3 = 4 \<and>
               outline (strip_retries evs) =
                 [EmbedRequest b1, UpsertRequest cn, Pause 20,
                  EmbedRequest b2, UpsertRequest cn, Pause 20,
                  EmbedRequest b3, UpsertRequest cn])))"
    if run: "embed_and_store env chunks source cn t = (Inr n, t')" for n t'
  proof -
    obtain r0 t0 where prov: "provision env cn t = (r0, t0)" by (cases "provision env cn t")
    from run prov have r0: "r0 = Inr ()"
      by (cases r0) (simp_all add: embed_and_store_provision)
    have n: "n = length chunks"
    proof (cases "chunks = []")
      case True
      with run prov r0 show ?thesis by (simp add: embed_and_store_provision)
    next
      case False
      with run prov r0 have "store_batches env chunks source cn 0 0 t0 = (Inr n, t')"
        by (simp add: embed_and_store_provision)
      from store_batches_adds[OF this] show ?thesis by simp
    qed
    obtain evs where evs: "t' = snd (provision env cn t) @ evs"
      "outline (strip_retries evs) = batch_outline cn (batches chunks)"
      using embed_and_store_outline[OF run] by blast
    have "\<exists>b1 b2 b3.
               chunks = b1 @ b2 @ b3 \<and> length b1 = 8 \<and> length b2 = 8 \<and> length b3 = 4 \<and>
               outline (strip_retries evs) =
                 [EmbedRequest b1, UpsertRequest cn, Pause 20,
                  EmbedRequest b2, UpsertRequest cn, Pause 20,
                  EmbedRequest b3, UpsertRequest cn]"
      if len: "length chunks = 20"
    proof -
      have "outline (strip_retries evs) =
          [EmbedRequest (take 8 chunks), UpsertRequest cn, Pause 20,
           EmbedRequest (take 8 (drop 8 chunks)), UpsertRequest cn, Pause 20,
           EmbedRequest (drop 16 chunks), UpsertRequest cn]"
        using evs(2) cat20[OF len] by (simp add: BASE_DELAY_def)
      with cat20[OF len] show ?thesis by blast
    qed
    with n evs show ?thesis by blast
  qed
  have clean: "\<exists>evs. embed_and_store env chunks source cn t = (Inr (length chunks), t0 @ evs) \<and>
         strip_retries evs = evs \<and>
         map step_of evs = batch_steps source cn 0 (batches chunks) \<and>
         (length chunks = 20 \<longrightarrow>
            (\<exists>b1 b2 b3 p1 p2 p3.
               chunks = b1 @ b2 @ b3 \<and> length b1 = 8 \<and> length b2 = 8 \<and> length b3 = 4 \<and>
               map step_of evs =
                 [EmbedStep b1] @ replicate 8 UuidStep @ [UpsertStep cn p1, SleepStep 20] @
                 [EmbedStep b2] @ replicate 8 UuidStep @ [UpsertStep cn p2, SleepStep 20] @
                 [EmbedStep b3] @ replicate 4 UuidStep @ [UpsertStep cn p3]))"
    if h: "chunks \<noteq> [] \<and> provision env cn t = (Inr (), t0) \<and>
         provider_answers env \<and> upserts_accepted env" for t0
  proof -
    obtain evs where evs:
      "store_batches env chunks source cn 0 0 t0 = (Inr (0 + (length chunks - 0)), t0 @ evs)"
      "map step_of evs = batch_steps source cn 0 (batches (drop 0 chunks))"
      "strip_retries evs = evs"
      using store_batches_steps[of env chunks source cn 0 0 t0] h by blast
    have run: "embed_and_store env chunks source cn t = (Inr (length chunks), t0 @ evs)"
      using h evs(1) by (simp add: embed_and_store_provision)
    have twenty: "\<exists>b1 b2 b3 p1 p2 p3.
                 chunks = b1 @ b2 @ b3 \<and> length b1 = 8 \<and> length b2 = 8 \<and> length b3 = 4 \<and>
                 map step_of evs =
                   [EmbedStep b1] @ replicate 8 UuidStep @ [UpsertStep cn p1, SleepStep 20] @
                   [EmbedStep b2] @ replicate 8 UuidStep @ [UpsertStep cn p2, SleepStep 20] @
                   [EmbedStep b3] @ replicate 4 UuidStep @ [UpsertStep cn p3]"
      if len: "length chunks = 20"
    proof -
      let ?b1 = "take 8 chunks" and ?b2 = "take 8 (drop 8 chunks)" and ?b3 = "drop 16 chunks"
      have bt: "batches chunks = [?b1, ?b2, ?b3]" using cat20[OF len] by simp
      have cat: "chunks = ?b1 @ ?b2 @ ?b3" using cat20[OF len] by simp
      have l: "length ?b1 = 8" "length ?b2 = 8" "length ?b3 = 4" using len by simp_all
      have "map step_of evs =
          [EmbedStep ?b1] @ replicate 8 UuidStep @
          [UpsertStep cn (map (\<lambda>j. chunk_payload source (0 + j) (?b1 ! j)) [0..<length ?b1]),
           SleepStep 20] @
          [EmbedStep ?b2] @ replicate 8 UuidStep @
          [UpsertStep cn (map (\<lambda>j. chunk_payload source (0 + length ?b1 + j) (?b2 ! j))
             [0..<length ?b2]),
           SleepStep 20] @
          [EmbedStep ?b3] @ replicate 4 UuidStep @
          [UpsertStep cn (map (\<lambda>j. chunk_payload source (0 + length ?b1 + length ?b2 + j) (?b3 ! j))
             [0..<length ?b3])]"
        using evs(2) l unfolding bt drop_0 by (simp add: BASE_DELAY_def)
      with cat l show ?thesis by blast
    qed
    show ?thesis using run evs(2,3) twenty by auto
  qed
  show ?thesis using every batches_concat[of chunks] sizes clean by blast
qed

lemma provider_answers_env_ok: "provider_answers env_ok"
  by (simp add: provider_answers_def env_ok_def)

lemma upserts_accepted_env_ok: "upserts_accepted env_ok"
  by (simp add: upserts_accepted_def env_ok_def)

theorem embed_and_store_batches_witness:
  "provision env_ok ''rag_alice'' [] = (Inr (), [GetCollections, GetCollection ''rag_alice'']) \<and>
   provider_answers env_ok \<and> upserts_accepted env_ok \<and>
   fst (embed_and_store env_ok chunks20 ''a.pdf'' ''rag_alice'' []) = Inr 20 \<and>
   filter is_provider_call (snd (embed_and_store env_ok chunks20 ''a.pdf'' ''rag_alice'' [])) =
     [ContextualizedEmbed ''voyage-context-3'' [take 8 chunks20] Document,
      ContextualizedEmbed ''voyage-context-3'' [take 8 (drop 8 chunks20)] Document,
      ContextualizedEmbed ''voyage-context-3'' [drop 16 chunks20] Document] \<and>
   length (filter is_upsert (snd (embed_and_store env_ok chunks20 ''a.pdf'' ''rag_alice'' []))) = 3 \<and>
   filter (\<lambda>c. case c of Sleep n \<Rightarrow> True | _ \<Rightarrow> False)
     (snd (embed_and_store env_ok chunks20 ''a.pdf'' ''rag_alice'' [])) = [Sleep 20, Sleep 20] \<and>
   fst (embed_and_store env_retry_once [''alpha'', ''beta''] ''a.pdf'' ''rag_alice'' []) = Inr 2 \<and>
   outline (strip_retries
     (drop 2 (snd (embed_and_store env_retry_once [''alpha'', ''beta''] ''a.pdf'' ''rag_alice'' [])))) =
     [EmbedRequest [''alpha'', ''beta''], UpsertRequest ''rag_alice'']"
  using embed_and_store_batches
          [where env = env_ok and chunks = chunks20 and source = "''a.pdf''"
             and cn = "''rag_alice''" and t = "[]"]
        embed_and_store_batches
          [where env = env_retry_once and chunks = "[''alpha'', ''beta'']" and source = "''a.pdf''"
             and cn = "''rag_alice''" and t = "[]"]
        provider_answers_env_ok upserts_accepted_env_ok
  by (simp add: embed_and_store_def provision_def qdrant_get_collections_def env_ok_def
      env_retry_once_def on_embed_error_def is_rate_limit_example
      ensure_payload_indexes_def qdrant_get_collection_def required_def info_indexed_def
      chunks20_def store_batches.simps embed_batch_with_retry_def embed_retry_loop.simps
      embed_attempt_def contextualized_embed_def MAX_RETRIES_def SAFE_BATCH_SIZE_def
      BASE_DELAY_def uuid4_def qdrant_upsert_def sleep_def is_provider_call_def is_upsert_def
      Let_def)

subsection \<open>Ingesting a document again\<close>

lemma upsert_point_fresh:
  "point_id p \<notin> set (map point_id stored) \<Longrightarrow> upsert_point p stored = stored @ [p]"
  by (induction stored) auto

lemma upsert_points_fresh:
  "distinct (map point_id (stored @ ps)) \<Longrightarrow> upsert_points ps stored = stored @ ps"
proof (induction ps arbitrary: stored)
  case Nil
  then show ?case by simp
next
  case (Cons p ps)
  have "point_id p \<notin> set (map point_id stored)" using Cons.prems by auto
  then have one: "upsert_point p stored = stored @ [p]" by (rule upsert_point_fresh)
  have "distinct (map point_id ((stored @ [p]) @ ps))" using Cons.prems by simp
  from Cons.IH[OF this] show ?case by (simp add: one)
qed

text \<open>The upsert primitive by itself replaces a stored point that has the same
  identifier.\<close>

lemma upsert_point_replaces:
  "point_id p = point_id q \<Longrightarrow> upsert_points [p] [q] = [p]"
  by simp

lemma apply_calls_adds:
  "list_all (adds_only cn) evs \<Longrightarrow> s cn = Some existing \<Longrightarrow>
   distinct (map point_id (existing @ upserted evs)) \<Longrightarrow>
   apply_calls evs s = s(cn \<mapsto> existing @ upserted evs)"
proof (induction evs arbitrary: s existing)
  case Nil
  then show ?case by (simp add: map_upd_triv)
next
  case (Cons c evs)
  from Cons.prems(1) have rest: "list_all (adds_only cn) evs" and c: "adds_only cn c" by simp_all
  show ?case
  proof (cases c)
    case (Upsert cn' ps)
    with c have cn': "cn' = cn" by (simp add: adds_only_def)
    have d: "distinct (map point_id (existing @ ps))"
      and d': "distinct (map point_id ((existing @ ps) @ upserted evs))"
      using Cons.prems(3) Upsert by auto
    let ?s = "s(cn \<mapsto> existing @ ps)"
    have step: "apply_call c s = ?s"
      using Cons.prems(2) Upsert cn' upsert_points_fresh[OF d] by simp
    have "apply_calls evs ?s = ?s(cn \<mapsto> (existing @ ps) @ upserted evs)"
      by (rule Cons.IH[where s = ?s and existing = "existing @ ps", OF rest _ d']) simp
    then show ?thesis using step Upsert by simp
  next
    case (CreateCollection cn' vsize metric)
    with c have "cn' = cn" by (simp add: adds_only_def)
    then have step: "apply_call c s = s" using Cons.prems(2) CreateCollection by simp
    have "distinct (map point_id (existing @ upserted evs))"
      using Cons.prems(3) CreateCollection by simp
    from Cons.IH[where s = s and existing = existing, OF rest Cons.prems(2) this]
    show ?thesis using step CreateCollection by simp
  next
    case (Delete cn' selector)
    with c show ?thesis by (simp add: adds_only_def)
  qed (use Cons.IH[where s = s and existing = existing, OF rest Cons.prems(2)] Cons.prems(3)
       in simp_all)
qed

lemma provisioning_is_setup: "list_all is_provisioning evs \<Longrightarrow> list_all (is_setup cn) evs"
  by (induction evs) (auto simp: is_provisioning_def is_setup_def split: call.splits)

lemma provision_setup:
  "\<exists>evs. snd (provision env cn t) = t @ evs \<and> list_all (is_setup cn) evs"
proof (cases "get_collections_r env (t @ [GetCollections])")
  case (Inl e)
  then have "snd (provision env cn t) = t @ [GetCollections]"
    by (simp add: provision_def qdrant_get_collections_def)
  then show ?thesis by (simp add: is_setup_def)
next
  case (Inr names)
  let ?t1 = "t @ [GetCollections]"
  let ?t2 = "?t1 @ [CreateCollection cn 1024 Cosine]"
  consider (listed) "cn \<in> set names"
    | (failed) e where "cn \<notin> set names" "create_collection_r env ?t2 = Inl e"
    | (created) "cn \<notin> set names" "create_collection_r env ?t2 = Inr ()"
    by (cases "create_collection_r env ?t2") auto
  then show ?thesis
  proof cases
    case listed
    then have "snd (provision env cn t) = snd (ensure_payload_indexes env cn ?t1)"
      using Inr by (simp add: provision_def qdrant_get_collections_def)
    moreover obtain evs where
      "snd (ensure_payload_indexes env cn ?t1) = ?t1 @ evs" "list_all is_provisioning evs"
      using ensure_payload_indexes_calls by blast
    ultimately have "snd (provision env cn t) = t @ (GetCollections # evs)"
      "list_all (is_setup cn) (GetCollections # evs)"
      using provisioning_is_setup[of evs cn] by (simp_all add: is_setup_def)
    then show ?thesis by blast
  next
    case failed
    then have "snd (provision env cn t) = t @ [GetCollections, CreateCollection cn 1024 Cosine]"
      using Inr
      by (simp add: provision_def qdrant_get_collections_def qdrant_create_collection_def)
    then show ?thesis by (simp add: is_setup_def)
  next
    case created
    then have "snd (provision env cn t) = snd (ensure_payload_indexes env cn ?t2)"
      using Inr
      by (simp add: provision_def qdrant_get_collections_def qdrant_create_collection_def)
    moreover obtain evs where
      "snd (ensure_payload_indexes env cn ?t2) = ?t2 @ evs" "list_all is_provisioning evs"
      using ensure_payload_indexes_calls by blast
    ultimately have
      "snd (provision env cn t) = t @ (GetCollections # CreateCollection cn 1024 Cosine # evs)"
      "list_all (is_setup cn) (GetCollections # CreateCollection cn 1024 Cosine # evs)"
      using provisioning_is_setup[of evs cn] by (simp_all add: is_setup_def)
    then show ?thesis by blast
  qed
qed

text \<open>
  Claim C10.  In a successful run of \<^verbatim>\<open>embed_and_store\<close> there is no delete request,
  and the identifiers of the upserted points are exactly the identifiers drawn with
  \<^verbatim>\<open>uuid4\<close> during the run, one draw per point.  When these are fresh (different from
  one another and from the identifiers already stored), the collection afterwards holds
  every point it held before, unchanged, followed by the new points, all tagged with
  the source; with one vector per text there is one new point per chunk.  A second
  ingestion of the same document therefore adds a second set of points.
\<close>

theorem embed_and_store_adds_fresh_points:
  assumes run: "embed_and_store env chunks source cn t = (Inr n, t')"
      and st: "s cn = Some existing"
      and fresh: "distinct (map point_id existing @ drawn_ids env t (drop (length t) t'))"
  shows "filter is_delete (drop (length t) t') = [] \<and>
         map point_id (upserted (drop (length t) t')) = drawn_ids env t (drop (length t) t') \<and>
         apply_calls (drop (length t) t') s = s(cn \<mapsto> existing @ upserted (drop (length t) t')) \<and>
         (\<forall>p\<in>set (upserted (drop (length t) t')). payload p ''source'' = Some (PStr source)) \<and>
         (one_vector_per_text env \<longrightarrow>
            map payload (upserted (drop (length t) t')) =
              map (\<lambda>k. chunk_payload source k (chunks ! k)) [0..<length chunks])"
proof -
  obtain r0 t0 where prov: "provision env cn t = (r0, t0)" by (cases "provision env cn t")
  from run prov have r0: "r0 = Inr ()"
    by (cases r0) (simp_all add: embed_and_store_provision)
  obtain ev0 where ev0: "t0 = t @ ev0" "list_all (is_setup cn) ev0"
    using provision_setup[of env cn t] prov by auto
  note f0 = setup_facts[OF ev0(2)]
  have "\<exists>evs. t' = t0 @ evs \<and> list_all (adds_only cn) evs \<and>
     map point_id (upserted evs) = drawn_ids env t0 evs \<and>
     (\<forall>p\<in>set (upserted evs). payload p ''source'' = Some (PStr source)) \<and>
     (one_vector_per_text env \<longrightarrow>
        map payload (upserted evs) =
          map (\<lambda>k. chunk_payload source k (chunks ! k)) [0..<length chunks])"
  proof (cases "chunks = []")
    case True
    with run prov r0 have "t' = t0" by (simp add: embed_and_store_provision)
    with True show ?thesis by simp
  next
    case False
    with run prov r0 have "store_batches env chunks source cn 0 0 t0 = (Inr n, t')"
      by (simp add: embed_and_store_provision)
    from store_batches_adds[OF this] show ?thesis by blast
  qed
  then obtain evs where evs: "t' = t0 @ evs" "list_all (adds_only cn) evs"
    "map point_id (upserted evs) = drawn_ids env t0 evs"
    "\<forall>p\<in>set (upserted evs). payload p ''source'' = Some (PStr source)"
    "one_vector_per_text env \<longrightarrow>
        map payload (upserted evs) =
          map (\<lambda>k. chunk_payload source k (chunks ! k)) [0..<length chunks]"
    by blast
  have new: "drop (length t) t' = ev0 @ evs" by (simp add: evs(1) ev0(1))
  have up: "upserted (ev0 @ evs) = upserted evs"
    using f0 by (simp add: upserted_append)
  have dr: "drawn_ids env t (ev0 @ evs) = drawn_ids env t0 evs"
    using f0[of env t] by (simp add: drawn_ids_append ev0(1))
  have ad: "list_all (adds_only cn) (ev0 @ evs)"
    using f0[of env t] evs(2) by simp
  have di: "distinct (map point_id (existing @ upserted (ev0 @ evs)))"
    using fresh unfolding new dr up by (simp add: evs(3))
  show ?thesis
    unfolding new
    using adds_only_no_delete[OF ad]
      apply_calls_adds[where s = s and existing = existing, OF ad st di] evs(3,4,5)
    by (simp add: up dr)
qed


lemma first_ingestion_trace:
  "first_ingestion =
     [GetCollections, GetCollection ''rag_alice'',
      ContextualizedEmbed ''voyage-context-3'' [[''alpha'', ''beta'']] Document, Uuid4, Uuid4,
      Upsert ''rag_alice''
        [stored_point ''uuuu'' ''alpha'' ''a.pdf'' 0, stored_point ''uuuuu'' ''beta'' ''a.pdf'' 1]]"
  by (simp add: first_ingestion_def embed_and_store_def qdrant_get_collections_def env_ok_def
      ensure_payload_indexes_def qdrant_get_collection_def required_def info_indexed_def
      store_batches.simps embed_batch_with_retry_def embed_retry_loop.simps
      embed_attempt_def contextualized_embed_def MAX_RETRIES_def SAFE_BATCH_SIZE_def
      BASE_DELAY_def uuid4_def qdrant_upsert_def sleep_def stored_point_def Let_def)

lemma second_ingestion_trace:
  "embed_and_store env_ok [''alpha'', ''beta''] ''a.pdf'' ''rag_alice'' first_ingestion =
     (Inr 2, first_ingestion @
       [GetCollections, GetCollection ''rag_alice'',
        ContextualizedEmbed ''voyage-context-3'' [[''alpha'', ''beta'']] Document, Uuid4, Uuid4,
        Upsert ''rag_alice''
          [stored_point ''uuuuuuuuuu'' ''alpha'' ''a.pdf'' 0,
           stored_point ''uuuuuuuuuuu'' ''beta'' ''a.pdf'' 1]])"
  unfolding first_ingestion_trace
  by (simp add: embed_and_store_def qdrant_get_collections_def env_ok_def
      ensure_payload_indexes_def qdrant_get_collection_def required_def info_indexed_def
      store_batches.simps embed_batch_with_retry_def embed_retry_loop.simps
      embed_attempt_def contextualized_embed_def MAX_RETRIES_def SAFE_BATCH_SIZE_def
      BASE_DELAY_def uuid4_def qdrant_upsert_def sleep_def stored_point_def Let_def)

theorem embed_and_store_adds_fresh_points_witness:
  "apply_calls first_ingestion [''rag_alice'' \<mapsto> []] ''rag_alice'' =
     Some [stored_point ''uuuu'' ''alpha'' ''a.pdf'' 0, stored_point ''uuuuu'' ''beta'' ''a.pdf'' 1] \<and>
   fst (embed_and_store env_ok [''alpha'', ''beta''] ''a.pdf'' ''rag_alice'' first_ingestion) = Inr 2 \<and>
   distinct
     (map point_id
        [stored_point ''uuuu'' ''alpha'' ''a.pdf'' 0, stored_point ''uuuuu'' ''beta'' ''a.pdf'' 1] @
      drawn_ids env_ok first_ingestion
        (drop (length first_ingestion)
           (snd (embed_and_store env_ok [''alpha'', ''beta''] ''a.pdf'' ''rag_alice''
                   first_ingestion)))) \<and>
   apply_calls
     (drop (length first_ingestion)
        (snd (embed_and_store env_ok [''alpha'', ''beta''] ''a.pdf'' ''rag_alice'' first_ingestion)))
     (apply_calls first_ingestion [''rag_alice'' \<mapsto> []]) ''rag_alice'' =
     Some [stored_point ''uuuu'' ''alpha'' ''a.pdf'' 0, stored_point ''uuuuu'' ''beta'' ''a.pdf'' 1,
           stored_point ''uuuuuuuuuu'' ''alpha'' ''a.pdf'' 0,
           stored_point ''uuuuuuuuuuu'' ''beta'' ''a.pdf'' 1]"
  using embed_and_store_adds_fresh_points
          [where env = env_ok and chunks = "[''alpha'', ''beta'']" and source = "''a.pdf''"
             and cn = "''rag_alice''" and t = first_ingestion and n = 2
             and t' = "snd (embed_and_store env_ok [''alpha'', ''beta''] ''a.pdf'' ''rag_alice''
                              first_ingestion)"
             and s = "apply_calls first_ingestion [''rag_alice'' \<mapsto> []]"
             and existing = "[stored_point ''uuuu'' ''alpha'' ''a.pdf'' 0,
                              stored_point ''uuuuu'' ''beta'' ''a.pdf'' 1]"]
  unfolding second_ingestion_trace
  by (simp add: first_ingestion_trace stored_point_def env_ok_def)

end
